theory Spec2Isabelle
  imports Main "HOL-Library.Sublist" "HOL-Library.Char_ord" "HOL-Library.List_Lexorder"
begin

section \<open>Attribute paths as strings\<close>

text \<open>
  The extension keeps every attribute path as a JavaScript string in the dotted display
  form (\<^verbatim>\<open>a.b.[3].c\<close>).  Strings are modelled as \<^typ>\<open>string\<close> (character lists).
  All characters the path functions inspect (\<^verbatim>\<open>.\<close>, \<^verbatim>\<open>[\<close>, \<^verbatim>\<open>]\<close>, the
  decimal digits) are ASCII, so reading a string as its bytes or as its UTF-16 units
  makes no difference to where those characters sit.
\<close>

subsection \<open>JavaScript string primitives used by the source\<close>

text \<open>\<^verbatim>\<open>s.startsWith(t)\<close>\<close>

definition startsWith :: "string \<Rightarrow> string \<Rightarrow> bool" where
  "startsWith s t = (take (length t) s = t)"

text \<open>\<^verbatim>\<open>s.slice(n)\<close> for a non-negative \<open>n\<close>\<close>

definition slice_from :: "string \<Rightarrow> nat \<Rightarrow> string" where
  "slice_from s n = drop n s"

text \<open>\<^verbatim>\<open>s.split('.')\<close>: empty pieces are kept, and the empty string splits into one
  empty piece.\<close>

fun split_dot :: "string \<Rightarrow> string list" where
  "split_dot [] = [[]]"
| "split_dot (c # cs) =
     (if c = CHR ''.'' then [] # split_dot cs
      else (case split_dot cs of
              [] \<Rightarrow> [[c]]
            | s # ss \<Rightarrow> (c # s) # ss))"

text \<open>\<^verbatim>\<open>parts.join('.')\<close>\<close>

fun join_dot :: "string list \<Rightarrow> string" where
  "join_dot [] = []"
| "join_dot [s] = s"
| "join_dot (s # t # ss) = s @ ''.'' @ join_dot (t # ss)"

subsection \<open>Relative paths (searchProvider.ts and flakeTreeProvider.ts)\<close>

text \<open>
  \<^verbatim>\<open>toRelativePath(absolutePath)\<close> exists twice with the same body, once in
  \<^verbatim>\<open>SearchProvider\<close> and once in \<^verbatim>\<open>FlakeTreeProvider\<close>.  The configured root path,
  which the source reads through \<^verbatim>\<open>getRootPath()\<close>, is the first argument here.
  An empty root path is falsy in JavaScript, which is the first test.
\<close>

definition toRelativePath :: "string \<Rightarrow> string \<Rightarrow> string" where
  "toRelativePath rootPath absolutePath =
     (if rootPath = [] then absolutePath
      else if startsWith absolutePath (rootPath @ ''.'')
        then slice_from absolutePath (length rootPath + 1)
      else if absolutePath = rootPath then []
      else absolutePath)"

definition search_toRelativePath :: "string \<Rightarrow> string \<Rightarrow> string" where
  "search_toRelativePath rootPath absolutePath =
     (if rootPath = [] then absolutePath
      else if startsWith absolutePath (rootPath @ ''.'')
        then slice_from absolutePath (length rootPath + 1)
      else if absolutePath = rootPath then []
      else absolutePath)"

subsection \<open>Splitting a path for the search index (searchProvider.ts)\<close>

text \<open>
  \<^verbatim>\<open>splitPath(path)\<close> walks the characters with two variables, the segment read so far
  (\<open>current\<close>) and the flag \<open>inBracket\<close>, and pushes finished segments onto \<open>parts\<close>.
  The loop function carries these three; its first equation is the code after the loop.
\<close>

fun splitPath_loop :: "string \<Rightarrow> string \<Rightarrow> bool \<Rightarrow> string list \<Rightarrow> string list" where
  "splitPath_loop [] current inBracket parts =
     (if current \<noteq> [] then parts @ [current] else parts)"
| "splitPath_loop (char # rest) current inBracket parts =
     (if char = CHR ''['' then splitPath_loop rest (current @ [char]) True parts
      else if char = CHR '']'' then splitPath_loop rest (current @ [char]) False parts
      else if char = CHR ''.'' \<and> \<not> inBracket then
        (if current \<noteq> [] then splitPath_loop rest [] inBracket (parts @ [current])
         else splitPath_loop rest current inBracket parts)
      else splitPath_loop rest (current @ [char]) inBracket parts)"

definition splitPath :: "string \<Rightarrow> string list" where
  "splitPath path = splitPath_loop path [] False []"

text \<open>
  \<^verbatim>\<open>indexPath\<close> puts the segments together again: its loop sets
  \<^verbatim>\<open>current = current ? `${current}.${parts[i]}` : parts[i]\<close>.  The function below is
  the value of \<open>current\<close> when the loop ends.
\<close>

fun indexPath_current :: "string \<Rightarrow> string list \<Rightarrow> string" where
  "indexPath_current current [] = current"
| "indexPath_current current (part # parts) =
     indexPath_current (if current \<noteq> [] then current @ ''.'' @ part else part) parts"

subsection \<open>Parsing a path for the evaluator (nixRunner.ts)\<close>

definition is_digit :: "char \<Rightarrow> bool" where
  "is_digit c = (c \<in> set ''0123456789'')"

text \<open>
  \<^verbatim>\<open>part.match(/^\[(\d+)\]$/)\<close>: the whole part is an opening bracket, one or more
  ASCII digits and a closing bracket.  The result is the captured digit string.
\<close>

definition match_index :: "string \<Rightarrow> string option" where
  "match_index part =
     (case part of
        [] \<Rightarrow> None
      | c # rest \<Rightarrow>
          if c = CHR ''['' \<and> rest \<noteq> [] \<and> last rest = CHR '']'' \<and>
             butlast rest \<noteq> [] \<and> list_all is_digit (butlast rest)
          then Some (butlast rest) else None)"

text \<open>The bracket notation of a list index, as in \<^verbatim>\<open>`${parent.attrPath}.[${elem.index}]`\<close>.\<close>

definition bracketed :: "string \<Rightarrow> string" where
  "bracketed d = ''['' @ d @ '']''"

definition digit_value :: "char \<Rightarrow> nat" where
  "digit_value c = length (takeWhile (\<lambda>d. d \<noteq> c) ''0123456789'')"

text \<open>
  \<^verbatim>\<open>parseInt(digits, 10)\<close> on a string of decimal digits.  The result is a natural
  number here.  A JavaScript number is a double: it holds the value exactly as long as it
  is below \<open>2^53\<close>, which every digit string of at most 15 characters is.  From
  \<open>2^53\<close> on the code works with the nearest double, which this definition does not
  follow; what is said below about the value of an index is said for indices under that
  bound.
\<close>

definition parseInt10 :: "string \<Rightarrow> nat" where
  "parseInt10 ds = foldl (\<lambda>n c. 10 * n + digit_value c) 0 ds"

record AttrPathParts =
  basePath :: string
  listAccesses :: "nat list"

text \<open>
  The loop of \<^verbatim>\<open>parseAttrPath\<close> over the parts, with \<open>baseParts\<close> and \<open>listAccesses\<close>
  as accumulators.  The source distinguishes whether list accesses were already collected
  when a name part arrives, and pushes the part onto \<open>baseParts\<close> in both branches.
\<close>

fun parseAttrPath_loop :: "string list \<Rightarrow> string list \<Rightarrow> nat list \<Rightarrow> string list \<times> nat list" where
  "parseAttrPath_loop [] baseParts accesses = (baseParts, accesses)"
| "parseAttrPath_loop (part # parts) baseParts accesses =
     (case match_index part of
        Some ds \<Rightarrow> parseAttrPath_loop parts baseParts (accesses @ [parseInt10 ds])
      | None \<Rightarrow>
          if accesses = [] then parseAttrPath_loop parts (baseParts @ [part]) accesses
          else parseAttrPath_loop parts (baseParts @ [part]) accesses)"

definition parseAttrPath :: "string \<Rightarrow> AttrPathParts" where
  "parseAttrPath attrPath =
     (case parseAttrPath_loop (split_dot attrPath) [] [] of
        (baseParts, accesses) \<Rightarrow> \<lparr>basePath = join_dot baseParts, listAccesses = accesses\<rparr>)"

subsection \<open>Building the evaluator arguments (nixRunner.ts)\<close>

text \<open>The decimal digits of a number, as a template literal prints an index.\<close>

function show_nat :: "nat \<Rightarrow> string" where
  "show_nat n =
     (if n < 10 then [''0123456789'' ! n]
      else show_nat (n div 10) @ [''0123456789'' ! (n mod 10)])"
  by pat_completeness auto
termination
  by (relation "measure id") auto

declare show_nat.simps [simp del]

text \<open>
  \<^verbatim>\<open>applyExpr.replace(/\bx\b/g, 'v')\<close>: every \<open>x\<close> that stands between two word
  boundaries becomes \<open>v\<close>.  Word characters are the ASCII letters, digits and the
  underscore.  The flag says whether the character before the current one is a word
  character.
\<close>

definition is_word_char :: "char \<Rightarrow> bool" where
  "is_word_char c =
     (c \<in> set ''abcdefghijklmnopqrstuvwxyzABCDEFGHIJKLMNOPQRSTUVWXYZ0123456789_'')"

fun replace_word_x :: "bool \<Rightarrow> string \<Rightarrow> string" where
  "replace_word_x prev_word [] = []"
| "replace_word_x prev_word (c # cs) =
     (if c = CHR ''x'' \<and> \<not> prev_word \<and> (case cs of [] \<Rightarrow> True | d # _ \<Rightarrow> \<not> is_word_char d)
      then CHR ''v'' # replace_word_x True cs
      else c # replace_word_x (is_word_char c) cs)"

text \<open>The loop that wraps the accessor once for each list index, starting from \<open>x\<close>.\<close>

fun accessor_loop :: "string \<Rightarrow> nat list \<Rightarrow> string" where
  "accessor_loop accessor [] = accessor"
| "accessor_loop accessor (idx # idxs) =
     accessor_loop (''(builtins.elemAt '' @ accessor @ '' '' @ show_nat idx @ '')'') idxs"

text \<open>
  \<^verbatim>\<open>buildEvalArgs(attrPath, applyExpr?)\<close>.  A missing \<open>applyExpr\<close> is \<open>None\<close>; a present
  but empty one is falsy in JavaScript and takes the same branches.
\<close>

definition apply_given :: "string option \<Rightarrow> bool" where
  "apply_given applyExpr = (case applyExpr of None \<Rightarrow> False | Some e \<Rightarrow> e \<noteq> [])"

definition buildEvalArgs :: "string \<Rightarrow> string option \<Rightarrow> string list" where
  "buildEvalArgs attrPath applyExpr =
     (let parts = parseAttrPath attrPath;
          flakeRef = (if basePath parts \<noteq> [] then ''.#'' @ basePath parts else ''.'');
          given = apply_given applyExpr
      in if listAccesses parts \<noteq> [] then
           (let accessor = accessor_loop ''x'' (listAccesses parts);
                fullApply =
                  (if given
                   then ''x: let v = '' @ accessor @ ''; in '' @ replace_word_x False (the applyExpr)
                   else ''x: '' @ accessor)
            in [''eval'', ''--json'', flakeRef, ''--apply'', fullApply])
         else if given then [''eval'', ''--json'', flakeRef, ''--apply'', the applyExpr]
         else [''eval'', ''--json'', flakeRef])"

subsection \<open>Reading the built accessor\<close>

text \<open>
  To say what the accessor string means, element access is given a small abstract syntax:
  the loaded value, or the element at an index of the value of another accessor.  Values
  are trees of lists; \<open>builtins.elemAt\<close> fails outside the list.
\<close>

datatype accessor = Loaded | ElemAt accessor nat

fun render :: "accessor \<Rightarrow> string" where
  "render Loaded = ''x''"
| "render (ElemAt a i) = ''(builtins.elemAt '' @ render a @ '' '' @ show_nat i @ '')''"

datatype 'a nix_value = Atom 'a | ListV "'a nix_value list"

fun elemAt :: "'a nix_value \<Rightarrow> nat \<Rightarrow> 'a nix_value option" where
  "elemAt (ListV vs) i = (if i < length vs then Some (vs ! i) else None)"
| "elemAt (Atom _) i = None"

fun access :: "accessor \<Rightarrow> 'a nix_value \<Rightarrow> 'a nix_value option" where
  "access Loaded v = Some v"
| "access (ElemAt a i) v = (case access a v of None \<Rightarrow> None | Some w \<Rightarrow> elemAt w i)"

subsection \<open>Well-formed and malformed display paths\<close>

text \<open>
  A name segment is a non-empty string without dots and brackets; an index segment is a
  bracketed run of digits.  A valid display path is one whose dot-separated pieces are
  all segments of one of these two kinds.
\<close>

definition name_segment :: "string \<Rightarrow> bool" where
  "name_segment s = (s \<noteq> [] \<and> CHR ''.'' \<notin> set s \<and> CHR ''['' \<notin> set s \<and> CHR '']'' \<notin> set s)"

definition index_segment :: "string \<Rightarrow> bool" where
  "index_segment s = (match_index s \<noteq> None)"

definition valid_segment :: "string \<Rightarrow> bool" where
  "valid_segment s = (name_segment s \<or> index_segment s)"

definition valid_display_path :: "string \<Rightarrow> bool" where
  "valid_display_path p = list_all valid_segment (split_dot p)"

text \<open>
  Brackets are matched when every \<open>[\<close> is closed by a later \<open>]\<close> before the next \<open>[\<close>
  and no \<open>]\<close> stands alone.  The flag says whether a bracket is open.
\<close>

fun brackets_matched :: "bool \<Rightarrow> string \<Rightarrow> bool" where
  "brackets_matched opened [] = (\<not> opened)"
| "brackets_matched opened (c # cs) =
     (if c = CHR ''['' then \<not> opened \<and> brackets_matched True cs
      else if c = CHR '']'' then opened \<and> brackets_matched False cs
      else brackets_matched opened cs)"

definition has_empty_segment :: "string \<Rightarrow> bool" where
  "has_empty_segment p = ([] \<in> set (split_dot p))"

definition malformed_path :: "string \<Rightarrow> bool" where
  "malformed_path p = (\<not> brackets_matched False p \<or> has_empty_segment p)"

section \<open>Tree nodes (flakeNode.ts)\<close>

datatype FlakeNodeType = Attrset | List | ListElement | Derivation | Leaf | Error | Loading

text \<open>\<^verbatim>\<open>vscode.TreeItemCollapsibleState\<close>; its \<open>None\<close> is \<open>NoneState\<close> here.\<close>

datatype TreeItemCollapsibleState = NoneState | Collapsed | Expanded

text \<open>
  A node with the fields the tree logic reads and writes.  Icon, tooltip, description and
  context value only decorate the item and are left out, and so is the \<open>parent\<close>
  reference.  Nodes are values here: what a function does to a node object is returned as
  the new node.  Times are milliseconds as \<^verbatim>\<open>Date.now()\<close> gives them.
\<close>

datatype FlakeNode =
  FlakeNode (label: string) (attrPath: string) (nodeType: FlakeNodeType)
    (collapsibleState: TreeItemCollapsibleState) (listIndex: "nat option")
    (errorMessage: "string option") (cache: "FlakeNodeCache option")
and FlakeNodeCache =
  FlakeNodeCache (children: "FlakeNode list option") (cachedValue: "string option")
    (timestamp: int)

definition set_nodeType :: "FlakeNodeType \<Rightarrow> FlakeNode \<Rightarrow> FlakeNode" where
  "set_nodeType t n =
     FlakeNode (label n) (attrPath n) t (collapsibleState n) (listIndex n) (errorMessage n) (cache n)"

definition set_collapsibleState :: "TreeItemCollapsibleState \<Rightarrow> FlakeNode \<Rightarrow> FlakeNode" where
  "set_collapsibleState c n =
     FlakeNode (label n) (attrPath n) (nodeType n) c (listIndex n) (errorMessage n) (cache n)"

definition set_listIndex :: "nat option \<Rightarrow> FlakeNode \<Rightarrow> FlakeNode" where
  "set_listIndex i n =
     FlakeNode (label n) (attrPath n) (nodeType n) (collapsibleState n) i (errorMessage n) (cache n)"

definition set_errorMessage :: "string option \<Rightarrow> FlakeNode \<Rightarrow> FlakeNode" where
  "set_errorMessage m n =
     FlakeNode (label n) (attrPath n) (nodeType n) (collapsibleState n) (listIndex n) m (cache n)"

definition set_cache :: "FlakeNodeCache option \<Rightarrow> FlakeNode \<Rightarrow> FlakeNode" where
  "set_cache k n =
     FlakeNode (label n) (attrPath n) (nodeType n) (collapsibleState n) (listIndex n)
       (errorMessage n) k"

text \<open>\<^verbatim>\<open>updateAppearance()\<close>: the collapsible state follows the node type.\<close>

definition updateAppearance :: "FlakeNode \<Rightarrow> FlakeNode" where
  "updateAppearance n =
     (case nodeType n of
        Attrset \<Rightarrow> set_collapsibleState Collapsed n
      | List \<Rightarrow> set_collapsibleState Collapsed n
      | ListElement \<Rightarrow> set_collapsibleState Collapsed n
      | Derivation \<Rightarrow> set_collapsibleState Collapsed n
      | Leaf \<Rightarrow> set_collapsibleState NoneState n
      | Error \<Rightarrow> set_collapsibleState NoneState n
      | Loading \<Rightarrow> set_collapsibleState NoneState n)"

text \<open>The constructor: it stores its arguments and then calls \<^verbatim>\<open>updateAppearance()\<close>.\<close>

definition new_FlakeNode ::
  "string \<Rightarrow> string \<Rightarrow> FlakeNodeType \<Rightarrow> TreeItemCollapsibleState \<Rightarrow> FlakeNode" where
  "new_FlakeNode lbl path t c = updateAppearance (FlakeNode lbl path t c None None None)"

definition setError :: "string \<Rightarrow> FlakeNode \<Rightarrow> FlakeNode" where
  "setError message n = updateAppearance (set_nodeType Error (set_errorMessage (Some message) n))"

definition createChild :: "FlakeNode \<Rightarrow> string \<Rightarrow> FlakeNodeType \<Rightarrow> nat option \<Rightarrow> FlakeNode" where
  "createChild this name t idx =
     (let childPath =
            (if attrPath this \<noteq> []
             then (if idx \<noteq> None then attrPath this else attrPath this @ ''.'' @ name)
             else name);
          child = new_FlakeNode name childPath t (if t = Leaf then NoneState else Collapsed)
      in set_listIndex idx child)"

text \<open>\<^verbatim>\<open>getCachedChildren(maxAgeMs = 60000)\<close>; an empty array of children is truthy.\<close>

definition getCachedChildren :: "int \<Rightarrow> int \<Rightarrow> FlakeNode \<Rightarrow> FlakeNode list option" where
  "getCachedChildren now maxAgeMs n =
     (case cache n of
        None \<Rightarrow> None
      | Some c \<Rightarrow>
          (case children c of
             None \<Rightarrow> None
           | Some cs \<Rightarrow> if now - timestamp c > maxAgeMs then None else Some cs))"

text \<open>\<^verbatim>\<open>cacheChildren(children)\<close> keeps the other fields of an existing cache.\<close>

definition cacheChildren :: "int \<Rightarrow> FlakeNode list \<Rightarrow> FlakeNode \<Rightarrow> FlakeNode" where
  "cacheChildren now cs n =
     set_cache (Some (FlakeNodeCache (Some cs)
                        (case cache n of None \<Rightarrow> None | Some c \<Rightarrow> cachedValue c) now)) n"

text \<open>\<^verbatim>\<open>createErrorNode(message, parent?)\<close>\<close>

definition createErrorNode :: "string \<Rightarrow> FlakeNode option \<Rightarrow> FlakeNode" where
  "createErrorNode message parent =
     setError message
       (new_FlakeNode ''Error'' (case parent of None \<Rightarrow> [] | Some p \<Rightarrow> attrPath p) Error NoneState)"

section \<open>Queries of the tree provider (nixRunner.ts)\<close>

text \<open>
  What \<^verbatim>\<open>executeNix\<close> resolves with: \<^verbatim>\<open>{ success: true, data }\<close> or
  \<^verbatim>\<open>{ success: false, error }\<close>.
\<close>

datatype 'a NixEvalResult = Success 'a | Failure string

text \<open>
  The methods of \<^verbatim>\<open>NixRunner\<close> the tree provider calls.  Each builds the arguments of
  one \<open>nix\<close> invocation and a process key, and hands both to \<^verbatim>\<open>run\<close>.
\<close>

datatype nix_query =
    GetValueType string
  | IsDerivation string
  | GetAttrNames string
  | GetListElementsInfo string
  | GetListElementInfo string nat
  | GetValue string
  | FlakeShow

definition dq :: string where
  "dq = [CHR 0x22]"

definition nl :: string where
  "nl = [CHR 0x0A]"

text \<open>The expression \<^verbatim>\<open>getListElementsInfo\<close> passes to \<^verbatim>\<open>--apply\<close>, line by line.\<close>

definition listElementsInfo_expr :: string where
  "listElementsInfo_expr =
     ''xs: builtins.genList (i: let e = builtins.elemAt xs i; in { '' @ nl @
     ''        index = i;'' @ nl @
     ''        name = e.name or e.pname or (toString i); '' @ nl @
     ''        isDrv = (e.type or null) == '' @ dq @ ''derivation'' @ dq @ '' || (e ? drvPath);'' @ nl @
     ''      }) (builtins.length xs)''"

definition listElementInfo_expr :: "nat \<Rightarrow> string" where
  "listElementInfo_expr i =
     ''xs: let e = builtins.elemAt xs '' @ show_nat i @ ''; in { '' @ nl @
     ''        name = e.name or e.pname or '' @ dq @ ''['' @ show_nat i @ '']'' @ dq @ ''; '' @ nl @
     ''        isDrv = (e.type or null) == '' @ dq @ ''derivation'' @ dq @ '' || (e ? drvPath);'' @ nl @
     ''      }''"

fun queryArgs :: "nix_query \<Rightarrow> string list" where
  "queryArgs (GetValueType path) = buildEvalArgs path (Some ''x: builtins.typeOf x'')"
| "queryArgs (IsDerivation path) =
     buildEvalArgs path
       (Some (''x: (x.type or null) == '' @ dq @ ''derivation'' @ dq @ '' || (x ? drvPath)''))"
| "queryArgs (GetAttrNames path) = buildEvalArgs path (Some ''x: builtins.attrNames x'')"
| "queryArgs (GetListElementsInfo path) =
     [''eval'', ''--json'', ''.#'' @ path, ''--apply'', listElementsInfo_expr]"
| "queryArgs (GetListElementInfo path i) =
     [''eval'', ''--json'', ''.#'' @ path, ''--apply'', listElementInfo_expr i]"
| "queryArgs (GetValue path) = buildEvalArgs path None"
| "queryArgs FlakeShow = [''flake'', ''show'', ''--json'', ''.'']"

fun processKey :: "nix_query \<Rightarrow> string" where
  "processKey (GetValueType path) = ''type:'' @ path"
| "processKey (IsDerivation path) = ''isDrv:'' @ path"
| "processKey (GetAttrNames path) = ''attrNames:'' @ path"
| "processKey (GetListElementsInfo path) = ''listElems:'' @ path"
| "processKey (GetListElementInfo path i) = ''listElem:'' @ path @ ''['' @ show_nat i @ '']''"
| "processKey (GetValue path) = ''value:'' @ path"
| "processKey FlakeShow = ''flakeShow''"

text \<open>One entry of the array the batched list query returns.\<close>

record ListElementInfo =
  elem_index :: nat
  elem_name :: string
  elem_isDrv :: bool

text \<open>
  A list element, as far as the expression of \<^verbatim>\<open>getListElementsInfo\<close> looks at it:
  its \<open>name\<close> and \<open>pname\<close> attributes if it has them, its \<open>type\<close> attribute, and
  whether it has a \<open>drvPath\<close> attribute.  \<open>listElementsInfo_apply\<close> is the array the
  query is expected to return for a list of such elements; that the expression computes
  it is proved further down from the evaluation of the expression.
\<close>

record NixElem =
  e_name :: "string option"
  e_pname :: "string option"
  e_type :: "string option"
  e_has_drvPath :: bool

definition listElementsInfo_apply :: "NixElem list \<Rightarrow> ListElementInfo list" where
  "listElementsInfo_apply xs =
     map (\<lambda>i. let e = xs ! i in
            \<lparr>elem_index = i,
             elem_name =
               (case e_name e of
                  Some n \<Rightarrow> n
                | None \<Rightarrow> (case e_pname e of Some n \<Rightarrow> n | None \<Rightarrow> show_nat i)),
             elem_isDrv = (e_type e = Some ''derivation'' \<or> e_has_drvPath e)\<rparr>)
         [0..<length xs]"

text \<open>
  The evaluator as the provider sees it during one call: what each query resolves with
  for a given attribute path.  The data of a reply has the shape the query's expression
  produces; for the queries whose data the provider iterates, \<open>None\<close> stands for data
  that is no array (for instance \<open>null\<close> after empty output), on which the provider's
  code throws a \<open>TypeError\<close>; the text of that error is not modelled.  The type reply is
  compared with \<open>'set'\<close> and \<open>'list'\<close> only, the derivation reply with \<open>true\<close> only.
\<close>

record Evaluator =
  ev_valueType :: "string \<Rightarrow> string NixEvalResult"
  ev_isDerivation :: "string \<Rightarrow> bool NixEvalResult"
  ev_attrNames :: "string \<Rightarrow> string list option NixEvalResult"
  ev_listElementsInfo :: "string \<Rightarrow> ListElementInfo list option NixEvalResult"
  ev_value :: "string \<Rightarrow> string NixEvalResult"
  ev_flakeShow :: "string list option NixEvalResult"

section \<open>The tree provider (flakeTreeProvider.ts)\<close>

datatype StatusType = StatusInfo | StatusError | StatusSuccess

text \<open>
  The provider's fields.  \<open>rootPath\<close> is what \<^verbatim>\<open>getRootPath()\<close> returns, \<open>statusLog\<close>
  collects the status updates fired, and \<open>issued\<close> the queries handed to the runner.
  The last field is not a field of the class: it is \<^verbatim>\<open>String.prototype.toLowerCase\<close> of
  the platform, which maps every cased letter of Unicode.  That mapping is not written out;
  the filter takes it from the record, and what is proved about the filter holds for
  every function in its place.
\<close>

record Provider =
  flakePath :: string
  rootPath :: string
  filterPath :: string
  rootNode :: "FlakeNode option"
  lastGoodChildren :: "string \<rightharpoonup> FlakeNode list"
  prefetchCache :: "string \<rightharpoonup> FlakeNode list"
  knownPaths :: "string list"
  statusLog :: "(StatusType \<times> string) list"
  issued :: "nix_query list"
  toLowerCase :: "string \<Rightarrow> string"

text \<open>
  What a function of the provider does: it returns a value or throws.  The provider's
  asynchronous functions are modelled one call at a time: each \<^verbatim>\<open>await\<close> of a query
  is the evaluator's reply, and the clock is read once per call.  \<^verbatim>\<open>names.sort()\<close>
  orders strings by their code units, which is \<^const>\<open>sort\<close> in the lexicographic order of
  character codes.
\<close>

datatype 'a outcome = Returned 'a | Thrown string

definition emitStatus :: "StatusType \<Rightarrow> string \<Rightarrow> Provider \<Rightarrow> Provider" where
  "emitStatus t message st = st\<lparr>statusLog := statusLog st @ [(t, message)]\<rparr>"

definition run_query :: "nix_query \<Rightarrow> Provider \<Rightarrow> Provider" where
  "run_query q st = st\<lparr>issued := issued st @ [q]\<rparr>"

definition indexPath :: "string \<Rightarrow> Provider \<Rightarrow> Provider" where
  "indexPath path st =
     (if path \<noteq> [] \<and> path \<notin> set (knownPaths st)
      then st\<lparr>knownPaths := knownPaths st @ [path]\<rparr> else st)"

text \<open>\<^verbatim>\<open>a || b\<close> on strings\<close>

definition or_default :: "string \<Rightarrow> string \<Rightarrow> string" where
  "or_default a b = (if a \<noteq> [] then a else b)"

text \<open>
  \<^verbatim>\<open>toLowerCase()\<close> restricted to the ASCII letters, other characters left as they
  are.  It agrees with JavaScript on ASCII strings and stands in for it in the worked
  examples, whose paths are ASCII.
\<close>

definition ascii_toLowerCase :: "string \<Rightarrow> string" where
  "ascii_toLowerCase s =
     map (\<lambda>c. case map_of (zip ''ABCDEFGHIJKLMNOPQRSTUVWXYZ'' ''abcdefghijklmnopqrstuvwxyz'') c of
                 Some l \<Rightarrow> l
               | None \<Rightarrow> c) s"

text \<open>\<^verbatim>\<open>s.includes(t)\<close>\<close>

definition includes_str :: "string \<Rightarrow> string \<Rightarrow> bool" where
  "includes_str s t = list_ex (\<lambda>i. startsWith (drop i s) t) [0..<Suc (length s)]"

definition applyFilter :: "Provider \<Rightarrow> FlakeNode list \<Rightarrow> FlakeNode list" where
  "applyFilter st cs =
     (if filterPath st = [] then cs
      else
        (let filterLower = toLowerCase st (filterPath st) in
         filter (\<lambda>child.
           (let childPathLower = toLowerCase st (toRelativePath (rootPath st) (attrPath child));
                childLabelLower = toLowerCase st (label child)
            in childPathLower = filterLower \<or>
               startsWith filterLower (childPathLower @ ''.'') \<or>
               (startsWith childPathLower (filterLower @ ''.'') \<or>
                startsWith childPathLower filterLower) \<or>
               (includes_str childLabelLower filterLower \<or> includes_str filterLower childLabelLower)))
           cs))"

text \<open>
  The fallback every failing query takes: the last known good children of the path if an
  entry exists (an array is truthy, also when empty), else one error node.
\<close>

definition lastGood_or_error :: "string \<Rightarrow> FlakeNode \<Rightarrow> Provider \<Rightarrow> FlakeNode list" where
  "lastGood_or_error message parent st =
     (case lastGoodChildren st (attrPath parent) of
        Some lastGood \<Rightarrow> lastGood
      | None \<Rightarrow> [createErrorNode message (Some parent)])"

definition fetchLeafValue :: "Evaluator \<Rightarrow> int \<Rightarrow> FlakeNode \<Rightarrow> Provider \<Rightarrow> FlakeNode \<times> Provider" where
  "fetchLeafValue ev now node st =
     (let st1 = run_query (GetValue (attrPath node)) st in
      case ev_value ev (attrPath node) of
        Success v \<Rightarrow> (set_cache (Some (FlakeNodeCache None (Some v) now)) node, st1)
      | Failure err \<Rightarrow> (setError (or_default err ''Failed to evaluate'') node, st1))"

definition fetchAttrsetChildren ::
  "Evaluator \<Rightarrow> FlakeNode \<Rightarrow> Provider \<Rightarrow> FlakeNode list outcome \<times> FlakeNode \<times> Provider" where
  "fetchAttrsetChildren ev parent st =
     (case prefetchCache st (attrPath parent) of
        Some prefetched \<Rightarrow> (Returned prefetched, parent, st)
      | None \<Rightarrow>
          (let st1 = run_query (IsDerivation (attrPath parent)) st;
               parent1 =
                 (case ev_isDerivation ev (attrPath parent) of
                    Success b \<Rightarrow>
                      if b then updateAppearance (set_nodeType Derivation parent) else parent
                  | Failure err \<Rightarrow> parent);
               st2 = run_query (GetAttrNames (attrPath parent)) st1
           in case ev_attrNames ev (attrPath parent) of
                Failure err \<Rightarrow>
                  (let st3 = emitStatus StatusError (or_default err ''Failed to get attributes'') st2
                   in (Returned (lastGood_or_error (or_default err ''Failed to evaluate'') parent1 st3),
                       parent1, st3))
              | Success None \<Rightarrow> (Thrown ''TypeError'', parent1, st2)
              | Success (Some attrNames) \<Rightarrow>
                  (let cs = map (\<lambda>name. createChild parent1 name Attrset None) (sort attrNames)
                   in (Returned cs, parent1,
                       emitStatus StatusSuccess
                         (''Loaded '' @ show_nat (length cs) @ '' attributes'') st2))))"

text \<open>The node \<^verbatim>\<open>fetchListChildren\<close> makes for one element of the reply.\<close>

definition list_child :: "FlakeNode \<Rightarrow> ListElementInfo \<Rightarrow> FlakeNode" where
  "list_child parent elem =
     (let child =
            new_FlakeNode (elem_name elem)
              (attrPath parent @ ''.'' @ bracketed (show_nat (elem_index elem)))
              (if elem_isDrv elem then Derivation else ListElement)
              (if elem_isDrv elem then NoneState else Collapsed);
          child1 = set_listIndex (Some (elem_index elem)) child;
          child2 = updateAppearance child1
      in if elem_isDrv elem then set_collapsibleState NoneState child2 else child2)"

definition fetchListChildren ::
  "Evaluator \<Rightarrow> FlakeNode \<Rightarrow> Provider \<Rightarrow> FlakeNode list outcome \<times> FlakeNode \<times> Provider" where
  "fetchListChildren ev parent st =
     (let parent1 = updateAppearance (set_nodeType List parent);
          st1 = run_query (GetListElementsInfo (attrPath parent)) st
      in case ev_listElementsInfo ev (attrPath parent) of
           Failure err \<Rightarrow>
             (let st2 = emitStatus StatusError (or_default err ''Failed to get list elements'') st1
              in (Returned (lastGood_or_error (or_default err ''Failed to evaluate'') parent1 st2),
                  parent1, st2))
         | Success None \<Rightarrow> (Thrown ''TypeError'', parent1, st1)
         | Success (Some elements) \<Rightarrow>
             (let cs = map (list_child parent1) elements
              in (Returned cs, parent1,
                  emitStatus StatusSuccess
                    (''Loaded '' @ show_nat (length cs) @ '' list items'') st1)))"

definition fetchChildren ::
  "Evaluator \<Rightarrow> int \<Rightarrow> FlakeNode \<Rightarrow> Provider \<Rightarrow> FlakeNode list outcome \<times> FlakeNode \<times> Provider" where
  "fetchChildren ev now parent st =
     (let st1 = run_query (GetValueType (attrPath parent)) st in
      case ev_valueType ev (attrPath parent) of
        Failure err \<Rightarrow>
          (let st2 = emitStatus StatusError (or_default err ''Failed to get type'') st1
           in (Returned (lastGood_or_error (or_default err ''Failed to evaluate'') parent st2),
               parent, st2))
      | Success valueType \<Rightarrow>
          if valueType = ''set'' then fetchAttrsetChildren ev parent st1
          else if valueType = ''list'' then fetchListChildren ev parent st1
          else
            (case fetchLeafValue ev now
                    (set_collapsibleState NoneState (set_nodeType Leaf parent)) st1 of
               (parent2, st2) \<Rightarrow> (Returned [], parent2, st2)))"

definition fetchTopLevelOutputs ::
  "Evaluator \<Rightarrow> Provider \<Rightarrow> FlakeNode list outcome \<times> Provider" where
  "fetchTopLevelOutputs ev st =
     (let st1 = run_query FlakeShow st in
      case ev_flakeShow ev of
        Failure err \<Rightarrow>
          (let st2 = emitStatus StatusError (or_default err ''Failed to show flake'') st1
           in (Returned
                 (case lastGoodChildren st2 [] of
                    Some lastGood \<Rightarrow> lastGood
                  | None \<Rightarrow> [createErrorNode (or_default err ''Failed to evaluate flake'') None]),
               st2))
      | Success None \<Rightarrow> (Thrown ''TypeError'', st1)
      | Success (Some keys) \<Rightarrow>
          (let st2 = emitStatus StatusSuccess ''Flake outputs loaded'' st1;
               cs = map (\<lambda>key. new_FlakeNode key key Attrset Collapsed) (sort keys);
               st3 = fold indexPath (sort keys) st2
           in (Returned cs, st3\<lparr>lastGoodChildren := (lastGoodChildren st3)([] \<mapsto> cs)\<rparr>)))"

definition getRootChildren ::
  "Evaluator \<Rightarrow> int \<Rightarrow> Provider \<Rightarrow> FlakeNode list outcome \<times> Provider" where
  "getRootChildren ev now st =
     (if rootPath st = [] then fetchTopLevelOutputs ev st
      else
        (case fetchChildren ev now
                (new_FlakeNode (or_default (last (split_dot (rootPath st))) ''root'')
                   (rootPath st) Attrset Expanded) st of
           (r, root1, st1) \<Rightarrow> (r, st1\<lparr>rootNode := Some root1\<rparr>)))"

text \<open>The \<^verbatim>\<open>catch\<close> block of \<^verbatim>\<open>getChildren\<close>.\<close>

definition getChildren_catch ::
  "string \<Rightarrow> FlakeNode option \<Rightarrow> Provider \<Rightarrow> FlakeNode list \<times> FlakeNode option \<times> Provider" where
  "getChildren_catch message element st =
     (let st1 = emitStatus StatusError (''Failed to get children: '' @ message) st;
          lastGood = (case element of None \<Rightarrow> None | Some el \<Rightarrow> lastGoodChildren st1 (attrPath el))
      in case lastGood of
           Some cs \<Rightarrow> (cs, element, st1)
         | None \<Rightarrow> ([createErrorNode message element], element, st1))"

text \<open>
  \<^verbatim>\<open>getChildren(element?)\<close> at the time \<open>now\<close>.  It returns the children, the element
  as the call leaves it, and the provider as the call leaves it.  Whatever is thrown
  inside ends in the \<^verbatim>\<open>catch\<close> block, so the function itself always returns.
\<close>

definition getChildren ::
  "Evaluator \<Rightarrow> int \<Rightarrow> FlakeNode option \<Rightarrow> Provider \<Rightarrow>
   FlakeNode list \<times> FlakeNode option \<times> Provider" where
  "getChildren ev now element st =
     (if flakePath st = [] then ([], element, st)
      else
        (case element of
           None \<Rightarrow>
             (case getRootChildren ev now st of
                (Returned cs, st1) \<Rightarrow> (applyFilter st1 cs, None, st1)
              | (Thrown message, st1) \<Rightarrow> getChildren_catch message None st1)
         | Some el \<Rightarrow>
             (case getCachedChildren now 60000 el of
                Some cached \<Rightarrow> (applyFilter st cached, Some el, st)
              | None \<Rightarrow>
                  (case fetchChildren ev now el st of
                     (Thrown message, el1, st1) \<Rightarrow> getChildren_catch message (Some el1) st1
                   | (Returned cs, el1, st1) \<Rightarrow>
                       (let st2 = fold indexPath (map attrPath cs) st1
                        in if cs \<noteq> [] \<and> nodeType el1 \<noteq> Error
                           then
                             (applyFilter st2 cs,
                              Some (cacheChildren now cs el1),
                              st2\<lparr>lastGoodChildren := (lastGoodChildren st2)(attrPath el1 \<mapsto> cs)\<rparr>)
                           else (applyFilter st2 cs, Some el1, st2))))))"

text \<open>\<^verbatim>\<open>refreshNode(node)\<close> drops the node's cache (and fires the change event).\<close>

definition refreshNode :: "FlakeNode \<Rightarrow> FlakeNode" where
  "refreshNode node = set_cache None node"

text \<open>
  When the children query of a path fails: the type query fails, or the value is a set
  that is not prefetched and the attribute-name query fails, or the value is a list and
  the batched element query fails.  The result is the error text of the failing reply.
\<close>

definition children_query_error :: "Evaluator \<Rightarrow> Provider \<Rightarrow> string \<Rightarrow> string option" where
  "children_query_error ev st path =
     (case ev_valueType ev path of
        Failure err \<Rightarrow> Some err
      | Success valueType \<Rightarrow>
          if valueType = ''set'' then
            (case prefetchCache st path of
               Some prefetched \<Rightarrow> None
             | None \<Rightarrow> (case ev_attrNames ev path of Failure err \<Rightarrow> Some err | Success d \<Rightarrow> None))
          else if valueType = ''list'' then
            (case ev_listElementsInfo ev path of Failure err \<Rightarrow> Some err | Success d \<Rightarrow> None)
          else None)"

text \<open>The provider as its constructor leaves it, for a workspace and a configured root.\<close>

definition new_Provider :: "string \<Rightarrow> string \<Rightarrow> Provider" where
  "new_Provider workspace root =
     \<lparr>flakePath = workspace, rootPath = root, filterPath = [], rootNode = None,
      lastGoodChildren = Map.empty, prefetchCache = Map.empty, knownPaths = [],
      statusLog = [], issued = [], toLowerCase = ascii_toLowerCase\<rparr>"

text \<open>An evaluator that gives the same replies for every path, for worked examples.\<close>

definition fixed_evaluator ::
  "string NixEvalResult \<Rightarrow> bool NixEvalResult \<Rightarrow> string list option NixEvalResult \<Rightarrow>
   ListElementInfo list option NixEvalResult \<Rightarrow> Evaluator" where
  "fixed_evaluator t d a l =
     \<lparr>ev_valueType = (\<lambda>path. t), ev_isDerivation = (\<lambda>path. d), ev_attrNames = (\<lambda>path. a),
      ev_listElementsInfo = (\<lambda>path. l), ev_value = (\<lambda>path. Failure ''not a leaf''),
      ev_flakeShow = Failure ''not asked''\<rparr>"

section \<open>Expansion-aware cache (docs/nixd-migration-plan.md)\<close>

text \<open>
  The expansion-aware provider is given as a TypeScript listing in the migration plan;
  \<^verbatim>\<open>extension.ts\<close> calls its \<^verbatim>\<open>onNodeExpanded\<close>, \<^verbatim>\<open>onNodeCollapsed\<close> and
  \<^verbatim>\<open>smartRefresh\<close>.  \<open>expandedPaths\<close> is a JavaScript \<open>Set\<close>, kept as the list of its
  members in insertion order; \<open>metadataCache\<close> is a \<open>Map\<close>, kept as the list of its
  entries in insertion order.
\<close>

datatype MetadataType = SetType | ListType | DerivationType | LeafType

record NodeMetadata =
  meta_type :: MetadataType
  meta_isDrv :: bool
  meta_attrNames :: "string list option"
  meta_listLength :: "nat option"
  meta_value :: "string option"
  meta_timestamp :: int

record TreeState =
  expandedPaths :: "string list"
  metadataCache :: "(string \<times> NodeMetadata) list"

text \<open>\<^verbatim>\<open>map.delete(key)\<close>\<close>

definition map_delete :: "string \<Rightarrow> (string \<times> 'v) list \<Rightarrow> (string \<times> 'v) list" where
  "map_delete key entries = filter (\<lambda>(k, v). k \<noteq> key) entries"

definition onNodeExpanded :: "string \<Rightarrow> TreeState \<Rightarrow> TreeState" where
  "onNodeExpanded path st =
     st\<lparr>expandedPaths :=
          (if path \<in> set (expandedPaths st) then expandedPaths st else expandedPaths st @ [path])\<rparr>"

text \<open>
  \<^verbatim>\<open>onNodeCollapsed(path)\<close>: the loop runs over the keys the cache has when it starts and
  deletes the entry of each key that is the path or starts with the path and a dot.
\<close>

definition onNodeCollapsed :: "string \<Rightarrow> TreeState \<Rightarrow> TreeState" where
  "onNodeCollapsed path st =
     st\<lparr>expandedPaths := filter (\<lambda>p. p \<noteq> path) (expandedPaths st),
        metadataCache :=
          fold (\<lambda>cachedPath c.
                  if cachedPath = path \<or> startsWith cachedPath (path @ ''.'')
                  then map_delete cachedPath c else c)
               (map fst (metadataCache st)) (metadataCache st)\<rparr>"

text \<open>The depth of a path in \<^verbatim>\<open>smartRefresh\<close>: \<^verbatim>\<open>a.split('.').length\<close>.\<close>

definition depth :: "string \<Rightarrow> nat" where
  "depth a = length (split_dot a)"

text \<open>
  \<^verbatim>\<open>[...this.expandedPaths].sort((a, b) => depthB - depthA)\<close>.  The sort of JavaScript
  arrays is stable, and so is \<^const>\<open>sort_key\<close>; the key is the negated depth, which puts
  the deepest paths first.
\<close>

definition sortedPaths :: "TreeState \<Rightarrow> string list" where
  "sortedPaths st = sort_key (\<lambda>a. - int (depth a)) (expandedPaths st)"

text \<open>
  The second loop of \<^verbatim>\<open>smartRefresh\<close>: for each path, delete its cache entry and fire
  the change event for its node, if \<^verbatim>\<open>findNodeByPath\<close> finds one.  The listing does
  not give \<^verbatim>\<open>findNodeByPath\<close>; it is a parameter.  The fired nodes are collected in
  order.
\<close>

fun refresh_loop ::
  "(string \<Rightarrow> FlakeNode option) \<Rightarrow> string list \<Rightarrow> (string \<times> NodeMetadata) list \<Rightarrow> FlakeNode list \<Rightarrow>
   (string \<times> NodeMetadata) list \<times> FlakeNode list" where
  "refresh_loop findNodeByPath [] c fired = (c, fired)"
| "refresh_loop findNodeByPath (path # paths) c fired =
     (case findNodeByPath path of
        Some node \<Rightarrow> refresh_loop findNodeByPath paths (map_delete path c) (fired @ [node])
      | None \<Rightarrow> refresh_loop findNodeByPath paths (map_delete path c) fired)"

definition smartRefresh ::
  "(string \<Rightarrow> FlakeNode option) \<Rightarrow> TreeState \<Rightarrow> TreeState \<times> FlakeNode list" where
  "smartRefresh findNodeByPath st =
     (let sorted = sortedPaths st;
          evicted =
            fold (\<lambda>path c. if path \<notin> set (expandedPaths st) then map_delete path c else c)
                 (map fst (metadataCache st)) (metadataCache st)
      in case refresh_loop findNodeByPath sorted evicted [] of
           (c, fired) \<Rightarrow> (st\<lparr>metadataCache := c\<rparr>, fired))"

text \<open>
  \<open>isAncestor a b\<close>: the segment sequence of \<open>b\<close> starts with all segments of \<open>a\<close>.
\<close>

definition isAncestor :: "string \<Rightarrow> string \<Rightarrow> bool" where
  "isAncestor a b = prefix (split_dot a) (split_dot b)"

section \<open>The query runner (nixRunner.ts)\<close>

text \<open>
  \<^verbatim>\<open>NixRunner\<close> keeps two maps, from process keys to the running child process and to the
  pending debounce timer.  JavaScript runs one callback at a time, so the runner is a
  state machine: a call of \<^verbatim>\<open>run\<close>, \<^verbatim>\<open>cancel\<close> or \<^verbatim>\<open>cancelAll\<close>, the firing of a
  debounce timer, and the \<open>close\<close>, \<open>error\<close> and timeout events of a child process are
  its steps.  Child processes and timers are numbered in the order of their creation;
  the lists \<open>spawned\<close> and \<open>timerLog\<close> record every call of \<^verbatim>\<open>spawn\<close> and every debounce
  \<^verbatim>\<open>setTimeout\<close>, and further lists record which processes were sent \<open>SIGTERM\<close>, which
  have closed or failed to start, and which timers were cleared or have fired.  Each call
  of \<^verbatim>\<open>run\<close> is a request with a number; \<open>resolved\<close> records what its promise
  resolved with.
\<close>

text \<open>
  The data of a successful reply: \<open>null\<close> when the trimmed output is empty, what
  \<^verbatim>\<open>JSON.parse\<close> makes of the output when it parses, and the trimmed output text when
  \<^verbatim>\<open>JSON.parse\<close> throws.  JSON values are not modelled: \<open>DataJson\<close> carries the text
  that was parsed.
\<close>

datatype NixData = DataNull | DataJson string | DataText string

record NixRunnerOptions =
  cwd :: string
  timeout :: "nat option"

record NixProc =
  proc_args :: "string list"
  proc_key :: string
  proc_request :: nat
  proc_options :: NixRunnerOptions

record DebounceTimer =
  timer_args :: "string list"
  timer_key :: string
  timer_request :: nat
  timer_options :: NixRunnerOptions

record Runner =
  activeProcesses :: "(string \<times> nat) list"
  debounceTimers :: "(string \<times> nat) list"
  spawned :: "NixProc list"
  killed :: "nat list"
  closed :: "nat list"
  errored :: "nat list"
  timerLog :: "DebounceTimer list"
  clearedTimers :: "nat list"
  firedTimers :: "nat list"
  resolved :: "(nat \<times> NixData NixEvalResult) list"
  requests :: nat
  nixArgs :: "string list"
  experimentalFeatures :: "string list"

definition new_Runner :: "string list \<Rightarrow> string list \<Rightarrow> Runner" where
  "new_Runner args features =
     \<lparr>activeProcesses = [], debounceTimers = [], spawned = [], killed = [], closed = [],
      errored = [], timerLog = [], clearedTimers = [], firedTimers = [], resolved = [],
      requests = 0, nixArgs = args, experimentalFeatures = features\<rparr>"

text \<open>\<^verbatim>\<open>parts.join(' ')\<close>\<close>

fun join_space :: "string list \<Rightarrow> string" where
  "join_space [] = []"
| "join_space [s] = s"
| "join_space (s # t # ss) = s @ '' '' @ join_space (t # ss)"

text \<open>\<^verbatim>\<open>map.set(key, value)\<close>: an existing entry keeps its place.\<close>

fun map_set :: "string \<Rightarrow> 'v \<Rightarrow> (string \<times> 'v) list \<Rightarrow> (string \<times> 'v) list" where
  "map_set key v [] = [(key, v)]"
| "map_set key v (e # entries) =
     (if fst e = key then (key, v) # entries else e # map_set key v entries)"

definition buildBaseArgs :: "Runner \<Rightarrow> string list" where
  "buildBaseArgs s =
     (if experimentalFeatures s \<noteq> []
      then [''--extra-experimental-features'', join_space (experimentalFeatures s)] else [])
     @ nixArgs s"

text \<open>
  \<^verbatim>\<open>cancel(key)\<close>: a tracked process that was not yet sent a signal is sent \<open>SIGTERM\<close>
  and dropped from the map; a tracked timer is cleared and dropped from the map.
\<close>

definition cancel :: "string \<Rightarrow> Runner \<Rightarrow> Runner" where
  "cancel key s =
     (let s1 =
            (case map_of (activeProcesses s) key of
               Some pid \<Rightarrow>
                 if pid \<notin> set (killed s)
                 then s\<lparr>killed := killed s @ [pid],
                        activeProcesses := map_delete key (activeProcesses s)\<rparr>
                 else s
             | None \<Rightarrow> s)
      in case map_of (debounceTimers s1) key of
           Some tid \<Rightarrow>
             s1\<lparr>clearedTimers := clearedTimers s1 @ [tid],
                debounceTimers := map_delete key (debounceTimers s1)\<rparr>
         | None \<Rightarrow> s1)"

text \<open>\<^verbatim>\<open>cancelAll()\<close> cancels the keys of the process map.\<close>

definition cancelAll :: "Runner \<Rightarrow> Runner" where
  "cancelAll s = fold cancel (map fst (activeProcesses s)) s"

text \<open>
  \<^verbatim>\<open>executeNix\<close> up to its return: the process is spawned with the base arguments
  followed by the given ones, and registered under the key.
\<close>

definition executeNix :: "string list \<Rightarrow> NixRunnerOptions \<Rightarrow> string \<Rightarrow> nat \<Rightarrow> Runner \<Rightarrow> Runner" where
  "executeNix args options pkey request s =
     s\<lparr>spawned := spawned s @
          [\<lparr>proc_args = buildBaseArgs s @ args, proc_key = pkey,
            proc_request = request, proc_options = options\<rparr>],
       activeProcesses := map_set pkey (length (spawned s)) (activeProcesses s)\<rparr>"

text \<open>\<^verbatim>\<open>run(args, options, key?, debounce = false)\<close>\<close>

definition run :: "string list \<Rightarrow> NixRunnerOptions \<Rightarrow> string option \<Rightarrow> bool \<Rightarrow> Runner \<Rightarrow> Runner" where
  "run args options key debounce s =
     (let pkey = (case key of Some k \<Rightarrow> k | None \<Rightarrow> join_space args);
          s1 = cancel pkey s;
          request = requests s1;
          s2 = s1\<lparr>requests := Suc request\<rparr>
      in if debounce
         then s2\<lparr>timerLog := timerLog s2 @
                   [\<lparr>timer_args = args, timer_key = pkey, timer_request = request,
                     timer_options = options\<rparr>],
                 debounceTimers := map_set pkey (length (timerLog s2)) (debounceTimers s2)\<rparr>
         else executeNix args options pkey request s2)"

text \<open>A debounce timer can fire when it was set and neither cleared nor fired before.\<close>

definition pending :: "Runner \<Rightarrow> nat \<Rightarrow> bool" where
  "pending s tid =
     (tid < length (timerLog s) \<and> tid \<notin> set (clearedTimers s) \<and> tid \<notin> set (firedTimers s))"

text \<open>The callback of the debounce timer.\<close>

definition timer_fires :: "nat \<Rightarrow> Runner \<Rightarrow> Runner" where
  "timer_fires tid s =
     (if pending s tid then
        (let t = timerLog s ! tid;
             s1 = s\<lparr>firedTimers := firedTimers s @ [tid],
                    debounceTimers := map_delete (timer_key t) (debounceTimers s)\<rparr>
         in executeNix (timer_args t) (timer_options t) (timer_key t) (timer_request t) s1)
      else s)"

text \<open>A promise keeps the first value it is resolved with.\<close>

definition resolve :: "nat \<Rightarrow> NixData NixEvalResult \<Rightarrow> Runner \<Rightarrow> Runner" where
  "resolve request result s =
     (case map_of (resolved s) request of
        None \<Rightarrow> s\<lparr>resolved := resolved s @ [(request, result)]\<rparr>
      | Some r \<Rightarrow> s)"

definition is_space :: "char \<Rightarrow> bool" where
  "is_space c = (c \<in> set [CHR '' '', CHR 0x09, CHR 0x0A, CHR 0x0B, CHR 0x0C, CHR 0x0D])"

text \<open>\<^verbatim>\<open>s.trim()\<close> for ASCII white space\<close>

definition trim :: "string \<Rightarrow> string" where
  "trim s = rev (dropWhile is_space (rev (dropWhile is_space s)))"

definition running :: "Runner \<Rightarrow> nat \<Rightarrow> bool" where
  "running s pid = (pid < length (spawned s) \<and> pid \<notin> set (closed s))"

text \<open>
  The \<open>close\<close> handler.  The exit code is \<open>None\<close> when the process was ended by a
  signal.  The handler deletes the map entry of the process key, whichever process that
  entry holds.  \<open>parses\<close> says whether \<^verbatim>\<open>JSON.parse(stdout)\<close> returns; it is read only
  after exit code 0 with output that is not blank.
\<close>

definition proc_closes ::
  "nat \<Rightarrow> nat option \<Rightarrow> string \<Rightarrow> string \<Rightarrow> bool \<Rightarrow> Runner \<Rightarrow> Runner" where
  "proc_closes pid code stdout stderr parses s =
     (if running s pid then
        (let p = spawned s ! pid;
             s1 = s\<lparr>closed := closed s @ [pid],
                    activeProcesses := map_delete (proc_key p) (activeProcesses s)\<rparr>
         in resolve (proc_request p)
              (if code = Some 0
               then Success (if trim stdout = [] then DataNull
                             else if parses then DataJson stdout else DataText (trim stdout))
               else Failure (or_default (trim stderr)
                      (''Exit code '' @ (case code of None \<Rightarrow> ''null'' | Some n \<Rightarrow> show_nat n))))
              s1)
      else s)"

text \<open>The \<open>error\<close> handler (the process could not be spawned).\<close>

definition proc_error :: "nat \<Rightarrow> string \<Rightarrow> Runner \<Rightarrow> Runner" where
  "proc_error pid message s =
     (if running s pid \<and> pid \<notin> set (errored s) then
        (let p = spawned s ! pid;
             s1 = s\<lparr>errored := errored s @ [pid],
                    activeProcesses := map_delete (proc_key p) (activeProcesses s)\<rparr>
         in resolve (proc_request p) (Failure message) s1)
      else s)"

text \<open>The timeout of a process, 30000 ms unless the options say otherwise.\<close>

definition proc_timeout :: "nat \<Rightarrow> Runner \<Rightarrow> Runner" where
  "proc_timeout pid s =
     (if running s pid \<and> pid \<notin> set (errored s) then
        (let p = spawned s ! pid;
             ms = (case timeout (proc_options p) of None \<Rightarrow> 30000 | Some t \<Rightarrow> t)
         in if pid \<notin> set (killed s)
            then resolve (proc_request p)
                   (Failure (''Command timed out after '' @ show_nat ms @ ''ms''))
                   (s\<lparr>killed := killed s @ [pid]\<rparr>)
            else s)
      else s)"

datatype runner_event =
    Run "string list" NixRunnerOptions "string option" bool
  | Cancel string
  | CancelAll
  | TimerFires nat
  | ProcCloses nat "nat option" string string bool
  | ProcError nat string
  | ProcTimeout nat

fun step :: "runner_event \<Rightarrow> Runner \<Rightarrow> Runner" where
  "step (Run args options key debounce) s = run args options key debounce s"
| "step (Cancel key) s = cancel key s"
| "step CancelAll s = cancelAll s"
| "step (TimerFires tid) s = timer_fires tid s"
| "step (ProcCloses pid code stdout stderr parses) s = proc_closes pid code stdout stderr parses s"
| "step (ProcError pid message) s = proc_error pid message s"
| "step (ProcTimeout pid) s = proc_timeout pid s"

text \<open>Every pending timer is the one its key is mapped to.\<close>

definition timers_registered :: "Runner \<Rightarrow> bool" where
  "timers_registered s =
     list_all (\<lambda>tid. pending s tid \<longrightarrow>
                 map_of (debounceTimers s) (timer_key (timerLog s ! tid)) = Some tid)
       [0..<length (timerLog s)]"

text \<open>Cleared and fired timers are timers that were set.\<close>

definition timers_known :: "Runner \<Rightarrow> bool" where
  "timers_known s =
     (list_all (\<lambda>tid. tid < length (timerLog s)) (clearedTimers s) \<and>
      list_all (\<lambda>tid. tid < length (timerLog s)) (firedTimers s) \<and>
      list_all (\<lambda>e. snd e < length (timerLog s)) (debounceTimers s))"

definition timers_ok :: "Runner \<Rightarrow> bool" where
  "timers_ok s = (timers_registered s \<and> timers_known s)"

text \<open>Signalled and registered processes are processes that were spawned.\<close>

definition procs_known :: "Runner \<Rightarrow> bool" where
  "procs_known s =
     (list_all (\<lambda>pid. pid < length (spawned s)) (killed s) \<and>
      list_all (\<lambda>e. snd e < length (spawned s)) (activeProcesses s))"


section \<open>The Nix expressions of the queries\<close>

text \<open>
  Some of the program is written in Nix: the expressions that \<^verbatim>\<open>NixRunner\<close> passes to
  \<^verbatim>\<open>nix eval --apply\<close> as strings.  To say what such a string computes, the part of Nix
  these expressions are written in is given a syntax and an evaluator, and a string is
  tied to its syntax tree by its tokens.
\<close>

subsection \<open>Tokens\<close>

text \<open>
  White space separates tokens and is dropped; a run of letters, digits and underscores
  is one token; a string literal, with its quotes, is one token (the literals here have no
  escapes); every other character is a token of its own, so \<^verbatim>\<open>==\<close> and \<^verbatim>\<open>||\<close> are two
  tokens each.  The flag says whether the lexer is inside a string literal.
\<close>

fun nix_lex :: "bool \<Rightarrow> string \<Rightarrow> string \<Rightarrow> string list" where
  "nix_lex in_string current [] = (if current = [] then [] else [current])"
| "nix_lex in_string current (c # cs) =
     (if in_string then
        (if c = CHR 0x22 then (current @ [c]) # nix_lex False [] cs
         else nix_lex True (current @ [c]) cs)
      else if c = CHR 0x22 then
        (if current = [] then [] else [current]) @ nix_lex True [c] cs
      else if is_space c then
        (if current = [] then [] else [current]) @ nix_lex False [] cs
      else if is_word_char c then nix_lex False (current @ [c]) cs
      else (if current = [] then [] else [current]) @ [c] # nix_lex False [] cs)"

definition nix_tokens :: "string \<Rightarrow> string list" where
  "nix_tokens s = nix_lex False [] s"

subsection \<open>Syntax\<close>

text \<open>
  The expressions of the fragment.  \<open>NSelectOr e a d\<close> is \<^verbatim>\<open>e.a or d\<close>, \<open>NHasAttr e a\<close>
  is \<^verbatim>\<open>e ? a\<close>, \<open>NParen\<close> keeps the parentheses of the source, \<open>NGenList x body n\<close> is
  \<^verbatim>\<open>builtins.genList (x: body) n\<close> with the function written in place, and \<open>NLam x body\<close>
  is the function \<^verbatim>\<open>x: body\<close>.  \<open>nix_render\<close> gives the tokens of an expression; the
  nesting of the tree is the precedence of Nix: \<^verbatim>\<open>or\<close> belongs to the selection before
  it, \<^verbatim>\<open>==\<close> binds tighter than \<^verbatim>\<open>||\<close>, a function body extends as far as it can.
\<close>

datatype nexp =
    NVar string
  | NInt nat
  | NStr string
  | NNull
  | NParen nexp
  | NSelectOr nexp string nexp
  | NHasAttr nexp string
  | NEq nexp nexp
  | NOr nexp nexp
  | NAttrs nfields
  | NLet string nexp nexp
  | NElemAt nexp nexp
  | NLength nexp
  | NTypeOf nexp
  | NToString nexp
  | NGenList string nexp nexp
  | NLam string nexp
and nfields = FNil | FCons string nexp nfields

fun nix_render :: "nexp \<Rightarrow> string list"
  and nix_render_fields :: "nfields \<Rightarrow> string list" where
  "nix_render (NVar x) = [x]"
| "nix_render (NInt n) = [show_nat n]"
| "nix_render (NStr s) = [dq @ s @ dq]"
| "nix_render NNull = [''null'']"
| "nix_render (NParen e) = [''(''] @ nix_render e @ ['')'']"
| "nix_render (NSelectOr e a d) = nix_render e @ [''.'', a, ''or''] @ nix_render d"
| "nix_render (NHasAttr e a) = nix_render e @ [''?'', a]"
| "nix_render (NEq a b) = nix_render a @ [''='', ''=''] @ nix_render b"
| "nix_render (NOr a b) = nix_render a @ [''|'', ''|''] @ nix_render b"
| "nix_render (NAttrs fs) = [''{''] @ nix_render_fields fs @ [''}'']"
| "nix_render (NLet x e b) = [''let'', x, ''=''] @ nix_render e @ ['';'', ''in''] @ nix_render b"
| "nix_render (NElemAt a b) = [''builtins'', ''.'', ''elemAt''] @ nix_render a @ nix_render b"
| "nix_render (NLength a) = [''builtins'', ''.'', ''length''] @ nix_render a"
| "nix_render (NTypeOf a) = [''builtins'', ''.'', ''typeOf''] @ nix_render a"
| "nix_render (NToString a) = [''toString''] @ nix_render a"
| "nix_render (NGenList x body n) =
     [''builtins'', ''.'', ''genList'', ''('', x, '':''] @ nix_render body @ ['')''] @ nix_render n"
| "nix_render (NLam x body) = [x, '':''] @ nix_render body"
| "nix_render_fields FNil = []"
| "nix_render_fields (FCons a e fs) = [a, ''=''] @ nix_render e @ ['';''] @ nix_render_fields fs"

subsection \<open>Values and evaluation\<close>

text \<open>
  Values: integers (the natural numbers suffice), strings, booleans, \<open>null\<close>, lists,
  attribute sets (entries sorted by name, which makes equal sets equal lists) and
  functions with the environment they were made in.  An environment gives each variable
  the outcome of its expression, \<open>None\<close> for one that fails, so that a variable which is
  never used does no harm, as under the lazy evaluation of Nix.  The result of an
  evaluation is \<open>None\<close> when Nix aborts with an error.  What is printed as JSON is
  evaluated completely, so lists and attribute sets are built strictly.  \<^verbatim>\<open>let\<close> is not
  recursive here; none of the expressions below refers to the variable it binds inside
  its own definition.
\<close>

datatype nval =
    VInt nat
  | VStr string
  | VBool bool
  | VNull
  | VList "nval list"
  | VAttrs "(string \<times> nval) list"
  | VFun "(string \<times> nval option) list" string nexp

text \<open>Data: a value with no function in it.\<close>

fun is_json :: "nval \<Rightarrow> bool" where
  "is_json (VFun env x body) = False"
| "is_json (VList vs) = list_all is_json vs"
| "is_json (VAttrs as) = list_all (\<lambda>e. is_json (snd e)) as"
| "is_json v = True"

text \<open>\<^verbatim>\<open>a == b\<close>: data are equal when they are the same; a function equals nothing.\<close>

definition nix_equal :: "nval \<Rightarrow> nval \<Rightarrow> bool" where
  "nix_equal a b = (is_json a \<and> a = b)"

text \<open>
  \<^verbatim>\<open>toString\<close> on the scalars.  On a list or a set, to which no expression below
  applies it, the result is left out (\<open>None\<close>).
\<close>

definition nix_toString :: "nval \<Rightarrow> string option" where
  "nix_toString v =
     (case v of
        VInt n \<Rightarrow> Some (show_nat n)
      | VStr s \<Rightarrow> Some s
      | VBool b \<Rightarrow> Some (if b then ''1'' else [])
      | VNull \<Rightarrow> Some []
      | _ \<Rightarrow> None)"

definition nix_typeOf :: "nval \<Rightarrow> string" where
  "nix_typeOf v =
     (case v of
        VInt n \<Rightarrow> ''int'' | VStr s \<Rightarrow> ''string'' | VBool b \<Rightarrow> ''bool'' | VNull \<Rightarrow> ''null''
      | VList vs \<Rightarrow> ''list'' | VAttrs as \<Rightarrow> ''set'' | VFun env x body \<Rightarrow> ''lambda'')"

fun nix_eval :: "(string \<times> nval option) list \<Rightarrow> nexp \<Rightarrow> nval option"
  and nix_eval_fields :: "(string \<times> nval option) list \<Rightarrow> nfields \<Rightarrow> (string \<times> nval) list option" where
  "nix_eval env (NVar x) = (case map_of env x of Some r \<Rightarrow> r | None \<Rightarrow> None)"
| "nix_eval env (NInt n) = Some (VInt n)"
| "nix_eval env (NStr s) = Some (VStr s)"
| "nix_eval env NNull = Some VNull"
| "nix_eval env (NParen e) = nix_eval env e"
| "nix_eval env (NSelectOr e a d) =
     (case nix_eval env e of
        None \<Rightarrow> None
      | Some (VAttrs as) \<Rightarrow> (case map_of as a of Some v \<Rightarrow> Some v | None \<Rightarrow> nix_eval env d)
      | Some v \<Rightarrow> nix_eval env d)"
| "nix_eval env (NHasAttr e a) =
     (case nix_eval env e of
        None \<Rightarrow> None
      | Some (VAttrs as) \<Rightarrow> Some (VBool (map_of as a \<noteq> None))
      | Some v \<Rightarrow> Some (VBool False))"
| "nix_eval env (NEq a b) =
     (case nix_eval env a of
        None \<Rightarrow> None
      | Some va \<Rightarrow> (case nix_eval env b of None \<Rightarrow> None | Some vb \<Rightarrow> Some (VBool (nix_equal va vb))))"
| "nix_eval env (NOr a b) =
     (case nix_eval env a of
        Some (VBool l) \<Rightarrow>
          if l then Some (VBool True)
          else (case nix_eval env b of Some (VBool r) \<Rightarrow> Some (VBool r) | _ \<Rightarrow> None)
      | _ \<Rightarrow> None)"
| "nix_eval env (NAttrs fs) =
     (case nix_eval_fields env fs of
        None \<Rightarrow> None
      | Some as \<Rightarrow> if distinct (map fst as) then Some (VAttrs (sort_key fst as)) else None)"
| "nix_eval env (NLet x e b) = nix_eval ((x, nix_eval env e) # env) b"
| "nix_eval env (NElemAt a b) =
     (case nix_eval env a of
        Some (VList vs) \<Rightarrow>
          (case nix_eval env b of
             Some (VInt i) \<Rightarrow> if i < length vs then Some (vs ! i) else None
           | _ \<Rightarrow> None)
      | _ \<Rightarrow> None)"
| "nix_eval env (NLength a) =
     (case nix_eval env a of Some (VList vs) \<Rightarrow> Some (VInt (length vs)) | _ \<Rightarrow> None)"
| "nix_eval env (NTypeOf a) =
     (case nix_eval env a of Some v \<Rightarrow> Some (VStr (nix_typeOf v)) | None \<Rightarrow> None)"
| "nix_eval env (NToString a) =
     (case nix_eval env a of Some v \<Rightarrow> map_option VStr (nix_toString v) | None \<Rightarrow> None)"
| "nix_eval env (NGenList x body n) =
     (case nix_eval env n of
        Some (VInt k) \<Rightarrow>
          map_option VList (those (map (\<lambda>i. nix_eval ((x, Some (VInt i)) # env) body) [0..<k]))
      | _ \<Rightarrow> None)"
| "nix_eval env (NLam x body) = Some (VFun env x body)"
| "nix_eval_fields env FNil = Some []"
| "nix_eval_fields env (FCons a e fs) =
     (case nix_eval env e of
        None \<Rightarrow> None
      | Some v \<Rightarrow> (case nix_eval_fields env fs of None \<Rightarrow> None | Some as \<Rightarrow> Some ((a, v) # as)))"

text \<open>\<^verbatim>\<open>--apply f\<close> applies the function \<open>f\<close> to the value the flake reference names.\<close>

definition nix_apply :: "nexp \<Rightarrow> nval \<Rightarrow> nval option" where
  "nix_apply f v = (case f of NLam x body \<Rightarrow> nix_eval [(x, Some v)] body | _ \<Rightarrow> None)"

text \<open>
  \<^verbatim>\<open>nix eval --json\<close> prints the value if it is data; a function cannot be printed,
  and the command fails.
\<close>

definition nix_json :: "nexp \<Rightarrow> nval \<Rightarrow> nval option" where
  "nix_json f v = (case nix_apply f v of Some r \<Rightarrow> if is_json r then Some r else None | None \<Rightarrow> None)"

subsection \<open>The batched list query\<close>

text \<open>The expression of \<^verbatim>\<open>getListElementsInfo\<close> as a syntax tree.\<close>

definition listElementsInfo_ast :: nexp where
  "listElementsInfo_ast =
     NLam ''xs''
       (NGenList ''i''
          (NLet ''e'' (NElemAt (NVar ''xs'') (NVar ''i''))
             (NAttrs
                (FCons ''index'' (NVar ''i'')
                (FCons ''name''
                   (NSelectOr (NVar ''e'') ''name''
                      (NSelectOr (NVar ''e'') ''pname'' (NParen (NToString (NVar ''i'')))))
                (FCons ''isDrv''
                   (NOr (NEq (NParen (NSelectOr (NVar ''e'') ''type'' NNull)) (NStr ''derivation''))
                        (NParen (NHasAttr (NVar ''e'') ''drvPath'')))
                 FNil)))))
          (NParen (NLength (NVar ''xs''))))"

text \<open>
  A list element as a value: an attribute set with the attributes the record says it
  has.  The derivation path stands for any path.
\<close>

definition elem_value :: "NixElem \<Rightarrow> nval" where
  "elem_value e =
     VAttrs
       ((if e_has_drvPath e then [(''drvPath'', VStr ''/nix/store/e.drv'')] else []) @
        (case e_name e of Some n \<Rightarrow> [(''name'', VStr n)] | None \<Rightarrow> []) @
        (case e_pname e of Some n \<Rightarrow> [(''pname'', VStr n)] | None \<Rightarrow> []) @
        (case e_type e of Some t \<Rightarrow> [(''type'', VStr t)] | None \<Rightarrow> []))"

text \<open>The entry the expression is expected to build for the element at index \<open>i\<close>.\<close>

definition element_info :: "nat \<Rightarrow> NixElem \<Rightarrow> nval" where
  "element_info i e =
     VAttrs
       [(''index'', VInt i),
        (''isDrv'', VBool (e_type e = Some ''derivation'' \<or> e_has_drvPath e)),
        (''name'',
         VStr (case e_name e of
                 Some n \<Rightarrow> n
               | None \<Rightarrow> (case e_pname e of Some n \<Rightarrow> n | None \<Rightarrow> show_nat i)))]"

text \<open>
  The typed view the provider takes of the JSON data: an array of objects with \<open>index\<close>,
  \<open>name\<close> and \<open>isDrv\<close>.
\<close>

definition decode_element :: "nval \<Rightarrow> ListElementInfo option" where
  "decode_element v =
     (case v of
        VAttrs as \<Rightarrow>
          (case (map_of as ''index'', map_of as ''name'', map_of as ''isDrv'') of
             (Some (VInt i), Some (VStr n), Some (VBool d)) \<Rightarrow>
               Some \<lparr>elem_index = i, elem_name = n, elem_isDrv = d\<rparr>
           | _ \<Rightarrow> None)
      | _ \<Rightarrow> None)"

definition decode_elements :: "nval \<Rightarrow> ListElementInfo list option" where
  "decode_elements v = (case v of VList vs \<Rightarrow> those (map decode_element vs) | _ \<Rightarrow> None)"

text \<open>
  The reply of the runner to the batched query, given what \<^verbatim>\<open>nix eval --json\<close> printed
  (\<open>None\<close>: it failed): the parsed data on success, a failure with some text otherwise.
\<close>

definition elements_reply :: "nval option \<Rightarrow> ListElementInfo list option NixEvalResult \<Rightarrow> bool" where
  "elements_reply printed reply =
     (case printed of
        Some v \<Rightarrow> reply = Success (decode_elements v)
      | None \<Rightarrow> (case reply of Failure err \<Rightarrow> True | Success d \<Rightarrow> False))"

text \<open>The same as a function, with a text of its own for the failure, for worked examples.\<close>

definition nix_elements_reply :: "nval \<Rightarrow> ListElementInfo list option NixEvalResult" where
  "nix_elements_reply v =
     (case nix_json listElementsInfo_ast v of
        Some r \<Rightarrow> Success (decode_elements r)
      | None \<Rightarrow> Failure ''error: evaluation failed'')"

section \<open>Relative paths\<close>

lemma startsWith_append: "startsWith (t @ s) t"
  by (simp add: startsWith_def)

lemma startsWith_self_dot: "\<not> startsWith r (r @ ''.'')"
  by (simp add: startsWith_def)

text \<open>
  C10.  For a non-empty root \<open>r\<close>, both copies of the conversion send \<open>r\<close> itself to
  the empty string, send \<open>r.s\<close> to \<open>s\<close>, and return every other path that does not
  begin with \<open>r.\<close> as it is.  The prefix that is tested ends with the dot: with root
  \<^verbatim>\<open>a.b\<close> the path \<^verbatim>\<open>a.bc\<close> comes back unchanged.
\<close>

theorem toRelativePath_cases:
  assumes "r \<noteq> []"
  shows "toRelativePath r r = [] \<and> search_toRelativePath r r = [] \<and>
         toRelativePath r (r @ ''.'' @ s) = s \<and> search_toRelativePath r (r @ ''.'' @ s) = s \<and>
         (\<not> startsWith p (r @ ''.'') \<and> p \<noteq> r \<longrightarrow>
            toRelativePath r p = p \<and> search_toRelativePath r p = p)"
proof -
  have self: "toRelativePath r r = [] \<and> search_toRelativePath r r = []"
    using assms
    by (simp add: toRelativePath_def search_toRelativePath_def startsWith_self_dot)
  have "startsWith (r @ ''.'' @ s) (r @ ''.'')"
    using startsWith_append [of "r @ ''.''" s] by simp
  then have inside:
    "toRelativePath r (r @ ''.'' @ s) = s \<and> search_toRelativePath r (r @ ''.'' @ s) = s"
    using assms
    by (simp add: toRelativePath_def search_toRelativePath_def slice_from_def)
  have outside: "\<not> startsWith p (r @ ''.'') \<and> p \<noteq> r \<longrightarrow>
           toRelativePath r p = p \<and> search_toRelativePath r p = p"
    by (simp add: toRelativePath_def search_toRelativePath_def)
  from self inside outside show ?thesis by blast
qed

theorem toRelativePath_cases_witness:
  "toRelativePath ''a.b'' ''a.b'' = [] \<and>
   toRelativePath ''a.b'' ''a.b.programs.git'' = ''programs.git'' \<and>
   toRelativePath ''a.b'' ''a.bc'' = ''a.bc'' \<and>
   search_toRelativePath ''a.b'' ''a.b'' = [] \<and>
   search_toRelativePath ''a.b'' ''a.b.programs.git'' = ''programs.git'' \<and>
   search_toRelativePath ''a.b'' ''a.bc'' = ''a.bc''"
proof -
  have ne: "''a.b'' \<noteq> []" by simp
  have pre: "\<not> startsWith ''a.bc'' (''a.b'' @ ''.'')" by (simp add: startsWith_def)
  have neq: "''a.bc'' \<noteq> ''a.b''" by simp
  show ?thesis
    using toRelativePath_cases [OF ne, of "''programs.git''" "''a.bc''"] pre neq
    by simp
qed

section \<open>Path splitting, parsing and serializing\<close>

lemma split_dot_nonempty: "split_dot p \<noteq> []"
  by (induction p) (auto split: list.splits)

lemma join_split_dot: "join_dot (split_dot p) = p"
proof (induction p)
  case Nil
  show ?case by simp
next
  case (Cons c cs)
  show ?case
  proof (cases "c = CHR ''.''")
    case True
    then show ?thesis using Cons split_dot_nonempty [of cs]
      by (cases "split_dot cs") auto
  next
    case False
    then show ?thesis using Cons split_dot_nonempty [of cs]
      by (cases "split_dot cs"; cases "tl (split_dot cs)") auto
  qed
qed

lemma splitPath_loop_plain:
  "CHR ''.'' \<notin> set s \<Longrightarrow> CHR ''['' \<notin> set s \<Longrightarrow> CHR '']'' \<notin> set s \<Longrightarrow>
   splitPath_loop (s @ rest) current inB parts = splitPath_loop rest (current @ s) inB parts"
  by (induction s arbitrary: current) auto

lemma is_digit_plain: "is_digit c \<Longrightarrow> c \<noteq> CHR ''.'' \<and> c \<noteq> CHR ''['' \<and> c \<noteq> CHR '']''"
  by (auto simp: is_digit_def)

lemma digits_plain:
  "list_all is_digit ds \<Longrightarrow> CHR ''.'' \<notin> set ds \<and> CHR ''['' \<notin> set ds \<and> CHR '']'' \<notin> set ds"
  using is_digit_plain by (auto simp: list_all_iff)

lemma match_index_shape:
  "match_index s = Some ds \<Longrightarrow> s = ''['' @ ds @ '']'' \<and> ds \<noteq> [] \<and> list_all is_digit ds"
proof (cases s)
  case Nil
  assume "match_index s = Some ds"
  with Nil show ?thesis by (simp add: match_index_def)
next
  case (Cons c rest)
  assume "match_index s = Some ds"
  with Cons have c: "c = CHR ''[''" and r: "rest \<noteq> []" and l: "last rest = CHR '']''"
    and d: "butlast rest = ds" "ds \<noteq> []" "list_all is_digit ds"
    by (auto simp: match_index_def split: if_splits)
  from append_butlast_last_id [OF r] l d(1) have "rest = ds @ '']''" by simp
  with Cons c d show ?thesis by simp
qed

lemma match_index_bracketed:
  "ds \<noteq> [] \<Longrightarrow> list_all is_digit ds \<Longrightarrow> match_index (''['' @ ds @ '']'') = Some ds"
  by (simp add: match_index_def)

lemma splitPath_loop_index:
  assumes "match_index s = Some ds"
  shows "splitPath_loop (s @ rest) current False parts = splitPath_loop rest (current @ s) False parts"
proof -
  from match_index_shape [OF assms] have s: "s = ''['' @ ds @ '']''" and d: "list_all is_digit ds"
    by auto
  from digits_plain [OF d] have
    "splitPath_loop (ds @ CHR '']'' # rest) (current @ ''['') True parts =
     splitPath_loop (CHR '']'' # rest) ((current @ ''['') @ ds) True parts"
    by (intro splitPath_loop_plain) auto
  then show ?thesis by (simp add: s)
qed

lemma splitPath_loop_segment:
  assumes "valid_segment s"
  shows "splitPath_loop (s @ rest) current False parts = splitPath_loop rest (current @ s) False parts"
proof (cases "match_index s")
  case None
  with assms have "name_segment s" by (simp add: valid_segment_def index_segment_def)
  then show ?thesis by (simp add: name_segment_def splitPath_loop_plain)
next
  case (Some ds)
  then show ?thesis by (rule splitPath_loop_index)
qed

lemma valid_segment_nonempty: "valid_segment s \<Longrightarrow> s \<noteq> []"
  by (auto simp: valid_segment_def name_segment_def index_segment_def match_index_def)

lemma splitPath_loop_join:
  "list_all valid_segment segs \<Longrightarrow>
   splitPath_loop (join_dot segs) [] False parts = parts @ segs"
proof (induction segs arbitrary: parts rule: join_dot.induct)
  case 1
  show ?case by simp
next
  case (2 s)
  then have v: "valid_segment s" by simp
  from splitPath_loop_segment [OF v, of "[]" "[]" parts] valid_segment_nonempty [OF v]
  show ?case by simp
next
  case (3 s t ss)
  then have v: "valid_segment s" and r: "list_all valid_segment (t # ss)" by simp_all
  have "splitPath_loop (s @ ''.'' @ join_dot (t # ss)) [] False parts =
        splitPath_loop (''.'' @ join_dot (t # ss)) s False parts"
    using splitPath_loop_segment [OF v, of "''.'' @ join_dot (t # ss)" "[]" parts] by simp
  also have "\<dots> = splitPath_loop (join_dot (t # ss)) [] False (parts @ [s])"
    using valid_segment_nonempty [OF v] by simp
  also have "\<dots> = (parts @ [s]) @ t # ss"
    using "3.IH" [OF r] .
  finally show ?case by simp
qed

lemma splitPath_valid: "valid_display_path p \<Longrightarrow> splitPath p = split_dot p"
  using splitPath_loop_join [of "split_dot p" "[]"]
  by (simp add: valid_display_path_def splitPath_def join_split_dot)

lemma join_dot_Cons: "join_dot (s # parts) = s @ concat (map (\<lambda>t. ''.'' @ t) parts)"
  by (induction parts arbitrary: s) auto

lemma indexPath_current_concat:
  "current \<noteq> [] \<Longrightarrow>
   indexPath_current current parts = current @ concat (map (\<lambda>t. ''.'' @ t) parts)"
  by (induction parts arbitrary: current) auto

lemma indexPath_current_step:
  "current \<noteq> [] \<Longrightarrow> indexPath_current current parts = join_dot (current # parts)"
  by (simp add: indexPath_current_concat join_dot_Cons)

lemma indexPath_current_join:
  "[] \<notin> set parts \<Longrightarrow> indexPath_current [] parts = join_dot parts"
  by (cases parts) (auto simp: indexPath_current_step)

lemma parseAttrPath_loop_eq:
  "parseAttrPath_loop parts baseParts accesses =
     (baseParts @ filter (\<lambda>s. match_index s = None) parts,
      accesses @ map parseInt10 (List.map_filter match_index parts))"
  by (induction parts arbitrary: baseParts accesses)
     (auto simp: List.map_filter_simps split: option.splits)

lemma parseAttrPath_eq:
  "parseAttrPath p =
     \<lparr>basePath = join_dot (filter (\<lambda>s. match_index s = None) (split_dot p)),
      listAccesses = map parseInt10 (List.map_filter match_index (split_dot p))\<rparr>"
  by (simp add: parseAttrPath_def parseAttrPath_loop_eq)

lemma splitPath_loop_no_empty:
  "[] \<notin> set parts \<Longrightarrow> [] \<notin> set (splitPath_loop p current inB parts)"
  by (induction p current inB parts rule: splitPath_loop.induct) auto

lemma splitPath_no_empty: "[] \<notin> set (splitPath p)"
  by (simp add: splitPath_def splitPath_loop_no_empty)

lemma name_segment_no_index: "name_segment s \<Longrightarrow> match_index s = None"
  by (cases s) (auto simp: name_segment_def match_index_def)

lemma valid_segment_name_iff: "valid_segment s \<Longrightarrow> (match_index s = None) = name_segment s"
  using name_segment_no_index by (auto simp: valid_segment_def index_segment_def)

text \<open>
  C1.  For every valid display path \<open>p\<close>, splitting \<open>p\<close> with \<^verbatim>\<open>splitPath\<close> and putting
  the segments together again with dots, by \<^verbatim>\<open>join('.')\<close> or by the loop of
  \<^verbatim>\<open>indexPath\<close>, gives \<open>p\<close> back.  The segments are exactly the dot-separated pieces
  of \<open>p\<close>, so a bracketed index stays one segment, and \<^verbatim>\<open>parseAttrPath\<close> sends the name
  segments to the base path and only the bracketed ones to the list accesses: a name
  made of digits stays a name.
\<close>

theorem splitPath_roundtrip:
  assumes "valid_display_path p"
  shows "join_dot (splitPath p) = p \<and> indexPath_current [] (splitPath p) = p \<and>
         splitPath p = split_dot p \<and> list_all valid_segment (splitPath p) \<and>
         basePath (parseAttrPath p) = join_dot (filter name_segment (splitPath p)) \<and>
         listAccesses (parseAttrPath p) = map parseInt10 (List.map_filter match_index (splitPath p))"
proof -
  have sp: "splitPath p = split_dot p"
    using assms by (rule splitPath_valid)
  have j: "join_dot (splitPath p) = p"
    by (simp add: sp join_split_dot)
  have i: "indexPath_current [] (splitPath p) = p"
    using indexPath_current_join [OF splitPath_no_empty, of p] j by simp
  have v: "list_all valid_segment (splitPath p)"
    using assms by (simp add: sp valid_display_path_def)
  have "\<And>s. s \<in> set (split_dot p) \<Longrightarrow> (match_index s = None) = name_segment s"
    using assms by (simp add: valid_display_path_def list_all_iff valid_segment_name_iff)
  then have "filter (\<lambda>s. match_index s = None) (split_dot p) = filter name_segment (split_dot p)"
    by (rule filter_cong [OF refl])
  then have b: "basePath (parseAttrPath p) = join_dot (filter name_segment (splitPath p))"
    by (simp add: parseAttrPath_eq sp)
  have l: "listAccesses (parseAttrPath p) = map parseInt10 (List.map_filter match_index (splitPath p))"
    by (simp add: parseAttrPath_eq sp)
  from j i sp v b l show ?thesis by blast
qed

lemmas path_eval = valid_display_path_def valid_segment_def name_segment_def index_segment_def
  match_index_def is_digit_def splitPath_def parseAttrPath_def parseInt10_def digit_value_def

theorem splitPath_roundtrip_witness:
  "valid_display_path ''a.3.[3].c'' \<and>
   join_dot (splitPath ''a.3.[3].c'') = ''a.3.[3].c'' \<and>
   indexPath_current [] (splitPath ''a.3.[3].c'') = ''a.3.[3].c'' \<and>
   splitPath ''a.3.[3].c'' = [''a'', ''3'', ''[3]'', ''c''] \<and>
   parseAttrPath ''a.3.[3].c'' = \<lparr>basePath = ''a.3.c'', listAccesses = [3]\<rparr>"
proof -
  have v: "valid_display_path ''a.3.[3].c''"
    by (simp add: path_eval)
  have s: "splitPath ''a.3.[3].c'' = [''a'', ''3'', ''[3]'', ''c'']"
    by (simp add: splitPath_def)
  have p: "parseAttrPath ''a.3.[3].c'' = \<lparr>basePath = ''a.3.c'', listAccesses = [3]\<rparr>"
    by (simp add: path_eval)
  from splitPath_roundtrip [OF v] have "join_dot (splitPath ''a.3.[3].c'') = ''a.3.[3].c''"
    and "indexPath_current [] (splitPath ''a.3.[3].c'') = ''a.3.[3].c''"
    by blast+
  with v s p show ?thesis by (intro conjI)
qed

text \<open>
  C8, as stated, fails.  The string \<^verbatim>\<open>a..[0\<close> has an empty segment and an unmatched
  bracket, and both parsing functions return a result for it: neither has a failing
  branch.
\<close>

theorem parse_accepts_malformed:
  "malformed_path ''a..[0'' \<and> has_empty_segment ''a..[0'' \<and> \<not> brackets_matched False ''a..[0'' \<and>
   parseAttrPath ''a..[0'' = \<lparr>basePath = ''a..[0'', listAccesses = []\<rparr> \<and>
   splitPath ''a..[0'' = [''a'', ''[0'']"
  by (simp add: malformed_path_def has_empty_segment_def path_eval)

text \<open>
  C8, amended.  No display string makes parsing fail.  For every string
  \<^verbatim>\<open>parseAttrPath\<close> returns the pieces of \<^verbatim>\<open>split('.')\<close> that are not of the form
  \<^verbatim>\<open>[digits]\<close>, joined by dots, as the base path (empty pieces and pieces with stray
  brackets included), and the numbers of the pieces of that form, in order, as the list
  accesses; \<^verbatim>\<open>splitPath\<close> returns segments none of which is empty, so empty segments
  are dropped without notice.
\<close>

theorem parse_total:
  "parseAttrPath p =
     \<lparr>basePath = join_dot (filter (\<lambda>s. match_index s = None) (split_dot p)),
      listAccesses = map parseInt10 (List.map_filter match_index (split_dot p))\<rparr> \<and>
   [] \<notin> set (splitPath p)"
  by (simp add: parseAttrPath_eq splitPath_no_empty)

theorem parse_total_witness:
  "malformed_path ''a..[0].[x'' \<and>
   parseAttrPath ''a..[0].[x'' = \<lparr>basePath = ''a..[x'', listAccesses = [0]\<rparr> \<and>
   [] \<notin> set (splitPath ''a..[0].[x'')"
proof -
  have m: "malformed_path ''a..[0].[x''"
    by (simp add: malformed_path_def has_empty_segment_def)
  from parse_total [of "''a..[0].[x''"] m show ?thesis
    by (simp add: List.map_filter_simps match_index_def is_digit_def parseInt10_def digit_value_def)
qed

lemma split_dot_plain: "CHR ''.'' \<notin> set s \<Longrightarrow> split_dot (s @ CHR ''.'' # rest) = s # split_dot rest"
  by (induction s) auto

lemma split_dot_single: "CHR ''.'' \<notin> set s \<Longrightarrow> split_dot s = [s]"
  by (induction s) auto

lemma split_join_dot:
  "segs \<noteq> [] \<Longrightarrow> list_all (\<lambda>s. CHR ''.'' \<notin> set s) segs \<Longrightarrow> split_dot (join_dot segs) = segs"
  by (induction segs rule: join_dot.induct) (auto simp: split_dot_single split_dot_plain)

lemma accessor_loop_render:
  "accessor_loop (render a) idxs = render (foldl ElemAt a idxs)"
proof (induction idxs arbitrary: a)
  case Nil
  show ?case by simp
next
  case (Cons i idxs)
  from Cons [of "ElemAt a i"] show ?case by simp
qed

lemma access_foldl:
  "access (foldl ElemAt a idxs) v =
     foldl (\<lambda>r i. case r of None \<Rightarrow> None | Some w \<Rightarrow> elemAt w i) (access a v) idxs"
  by (induction idxs arbitrary: a) auto

lemma map_filter_append: "List.map_filter f (xs @ ys) = List.map_filter f xs @ List.map_filter f ys"
  by (simp add: List.map_filter_def)

lemma map_filter_none: "list_all (\<lambda>s. f s = None) xs \<Longrightarrow> List.map_filter f xs = []"
  by (induction xs) (auto simp: List.map_filter_simps)

lemma filter_all: "list_all P xs \<Longrightarrow> filter P xs = xs"
  by (induction xs) auto

lemma filter_none: "list_all (\<lambda>x. \<not> P x) xs \<Longrightarrow> filter P xs = []"
  by (induction xs) auto

lemma map_filter_brackets:
  "list_all (\<lambda>d. d \<noteq> [] \<and> list_all is_digit d) ds \<Longrightarrow>
   List.map_filter match_index (map bracketed ds) = ds"
  by (induction ds) (auto simp: List.map_filter_simps match_index_bracketed bracketed_def simp del: append.simps)

section \<open>Evaluator arguments for list indices\<close>

text \<open>
  What \<^verbatim>\<open>buildEvalArgs\<close> builds for a path made of name parts followed by one or more
  index segments (each index of at most 15 digits, where JavaScript numbers are exact):
  it refers the evaluator to the base path and builds an accessor that nests
  \<open>builtins.elemAt\<close> in segment order, the first index applied to the loaded value, each
  later index to the result of the one before.  Without an expression to apply, the
  accessor is the body of the function passed to \<^verbatim>\<open>--apply\<close>; with one, it is bound to
  \<open>v\<close> and followed by the expression after the replacement of \<open>x\<close>.
\<close>

lemma buildEvalArgs_accessor:
  assumes names: "list_all (\<lambda>s. CHR ''.'' \<notin> set s \<and> match_index s = None) names"
    and ne: "ds \<noteq> []"
    and digits: "list_all (\<lambda>d. d \<noteq> [] \<and> list_all is_digit d \<and> length d \<le> 15) ds"
  shows "buildEvalArgs (join_dot (names @ map bracketed ds)) applyExpr =
           [''eval'', ''--json'',
            (if join_dot names \<noteq> [] then ''.#'' @ join_dot names else ''.''),
            ''--apply'',
            (if apply_given applyExpr
             then ''x: let v = '' @ render (foldl ElemAt Loaded (map parseInt10 ds)) @ ''; in '' @
                  replace_word_x False (the applyExpr)
             else ''x: '' @ render (foldl ElemAt Loaded (map parseInt10 ds)))] \<and>
         access (foldl ElemAt Loaded (map parseInt10 ds)) v =
           foldl (\<lambda>r i. case r of None \<Rightarrow> None | Some w \<Rightarrow> elemAt w i) (Some v) (map parseInt10 ds)"
proof -
  let ?idx = "map bracketed ds"
  let ?p = "join_dot (names @ ?idx)"
  have d: "list_all (\<lambda>d. d \<noteq> [] \<and> list_all is_digit d) ds"
    using digits by (simp add: list_all_iff)
  have dotfree_idx: "list_all (\<lambda>s. CHR ''.'' \<notin> set s) ?idx"
    using d digits_plain by (auto simp: list_all_iff bracketed_def)
  have dotfree: "list_all (\<lambda>s. CHR ''.'' \<notin> set s) (names @ ?idx)"
    using names dotfree_idx by (auto simp: list_all_iff)
  have sp: "split_dot ?p = names @ ?idx"
    using ne dotfree by (intro split_join_dot) simp_all
  have idx_match: "list_all (\<lambda>s. \<not> match_index s = None) ?idx"
    using d by (auto simp: list_all_iff match_index_bracketed bracketed_def simp del: append.simps)
  have names_none: "list_all (\<lambda>s. match_index s = None) names"
    using names by (simp add: list_all_iff)
  have base: "basePath (parseAttrPath ?p) = join_dot names"
    using filter_all [OF names_none] filter_none [OF idx_match]
    by (simp add: parseAttrPath_eq sp)
  have acc: "listAccesses (parseAttrPath ?p) = map parseInt10 ds"
    using map_filter_none [OF names_none] map_filter_brackets [OF d]
    by (simp add: parseAttrPath_eq sp map_filter_append)
  have nonempty: "map parseInt10 ds \<noteq> []"
    using ne by simp
  have r: "accessor_loop ''x'' (map parseInt10 ds) = render (foldl ElemAt Loaded (map parseInt10 ds))"
    using accessor_loop_render [of Loaded] by simp
  have args: "buildEvalArgs ?p applyExpr =
           [''eval'', ''--json'',
            (if join_dot names \<noteq> [] then ''.#'' @ join_dot names else ''.''),
            ''--apply'',
            (if apply_given applyExpr
             then ''x: let v = '' @ render (foldl ElemAt Loaded (map parseInt10 ds)) @ ''; in '' @
                  replace_word_x False (the applyExpr)
             else ''x: '' @ render (foldl ElemAt Loaded (map parseInt10 ds)))]"
    using nonempty by (simp only: buildEvalArgs_def Let_def base acc r if_True if_False simp_thms)
  have sem: "access (foldl ElemAt Loaded (map parseInt10 ds)) v =
           foldl (\<lambda>r i. case r of None \<Rightarrow> None | Some w \<Rightarrow> elemAt w i) (Some v) (map parseInt10 ds)"
    using access_foldl [of Loaded] by simp
  show ?thesis by (rule conjI [OF args sem])
qed

lemma replace_word_x_parameter:
  "replace_word_x False (''x:'' @ body) = ''v:'' @ replace_word_x False body"
  by (simp add: is_word_char_def split: list.splits)

text \<open>
  C9.  The claim describes what the translation is written to do, and the code does it
  when no expression is applied (\<^verbatim>\<open>getValue\<close>): for \<^verbatim>\<open>a.[0].[2]\<close> the function
  passed to \<^verbatim>\<open>--apply\<close> takes element 0 of the loaded value and element 2 of that.
  With an expression to apply the code misses it.  Every caller passes a function of
  \<open>x\<close> (\<^verbatim>\<open>x: builtins.typeOf x\<close> for the type query), and the replacement of \<open>x\<close> by
  \<open>v\<close> renames the parameter along with the body.  For \<^verbatim>\<open>a.[0].[2]\<close> and the type
  query the expression built is
  \<^verbatim>\<open>x: let v = (builtins.elemAt (builtins.elemAt x 0) 2); in v: builtins.typeOf v\<close>:
  applied to the loaded value it is a function, whose parameter hides the accessor bound
  to \<open>v\<close>; no element is accessed and \<^verbatim>\<open>nix eval --json\<close> has nothing to print.  With
  only the body renamed the expression would give the type of element 2 of element 0.
\<close>

theorem buildEvalArgs_renames_parameter:
  "replace_word_x False (''x:'' @ body) = ''v:'' @ replace_word_x False body \<and>
   buildEvalArgs ''a.[0].[2]'' (Some ''x: builtins.typeOf x'') =
     [''eval'', ''--json'', ''.#a'', ''--apply'',
      ''x: let v = (builtins.elemAt (builtins.elemAt x 0) 2); in v: builtins.typeOf v''] \<and>
   nix_tokens ''x: let v = (builtins.elemAt (builtins.elemAt x 0) 2); in v: builtins.typeOf v'' =
     nix_render
       (NLam ''x''
          (NLet ''v'' (NParen (NElemAt (NParen (NElemAt (NVar ''x'') (NInt 0))) (NInt 2)))
             (NLam ''v'' (NTypeOf (NVar ''v''))))) \<and>
   nix_apply
       (NLam ''x''
          (NLet ''v'' (NParen (NElemAt (NParen (NElemAt (NVar ''x'') (NInt 0))) (NInt 2)))
             (NLam ''v'' (NTypeOf (NVar ''v'')))))
       (VList [VList [VInt 10, VInt 11, VInt 12], VList [VInt 20]]) =
     Some (VFun [(''v'', Some (VInt 12)),
                 (''x'', Some (VList [VList [VInt 10, VInt 11, VInt 12], VList [VInt 20]]))]
             ''v'' (NTypeOf (NVar ''v''))) \<and>
   nix_json
       (NLam ''x''
          (NLet ''v'' (NParen (NElemAt (NParen (NElemAt (NVar ''x'') (NInt 0))) (NInt 2)))
             (NLam ''v'' (NTypeOf (NVar ''v'')))))
       (VList [VList [VInt 10, VInt 11, VInt 12], VList [VInt 20]]) = None \<and>
   nix_tokens ''x: let v = (builtins.elemAt (builtins.elemAt x 0) 2); in builtins.typeOf v'' =
     nix_render
       (NLam ''x''
          (NLet ''v'' (NParen (NElemAt (NParen (NElemAt (NVar ''x'') (NInt 0))) (NInt 2)))
             (NTypeOf (NVar ''v'')))) \<and>
   nix_json
       (NLam ''x''
          (NLet ''v'' (NParen (NElemAt (NParen (NElemAt (NVar ''x'') (NInt 0))) (NInt 2)))
             (NTypeOf (NVar ''v''))))
       (VList [VList [VInt 10, VInt 11, VInt 12], VList [VInt 20]]) = Some (VStr ''int'') \<and>
   buildEvalArgs ''a.[0].[2]'' None =
     [''eval'', ''--json'', ''.#a'', ''--apply'', ''x: (builtins.elemAt (builtins.elemAt x 0) 2)''] \<and>
   nix_tokens ''x: (builtins.elemAt (builtins.elemAt x 0) 2)'' =
     nix_render (NLam ''x'' (NParen (NElemAt (NParen (NElemAt (NVar ''x'') (NInt 0))) (NInt 2)))) \<and>
   nix_json (NLam ''x'' (NParen (NElemAt (NParen (NElemAt (NVar ''x'') (NInt 0))) (NInt 2))))
       (VList [VList [VInt 10, VInt 11, VInt 12], VList [VInt 20]]) = Some (VInt 12)"
proof -
  have a: "buildEvalArgs ''a.[0].[2]'' (Some ''x: builtins.typeOf x'') =
     [''eval'', ''--json'', ''.#a'', ''--apply'',
      ''x: let v = (builtins.elemAt (builtins.elemAt x 0) 2); in v: builtins.typeOf v'']"
    by (simp add: buildEvalArgs_def Let_def apply_given_def path_eval show_nat.simps is_word_char_def)
  have b: "buildEvalArgs ''a.[0].[2]'' None =
     [''eval'', ''--json'', ''.#a'', ''--apply'', ''x: (builtins.elemAt (builtins.elemAt x 0) 2)'']"
    by (simp add: buildEvalArgs_def Let_def apply_given_def path_eval show_nat.simps)
  have t: "nix_tokens ''x: let v = (builtins.elemAt (builtins.elemAt x 0) 2); in v: builtins.typeOf v'' =
     nix_render
       (NLam ''x''
          (NLet ''v'' (NParen (NElemAt (NParen (NElemAt (NVar ''x'') (NInt 0))) (NInt 2)))
             (NLam ''v'' (NTypeOf (NVar ''v'')))))"
    "nix_tokens ''x: let v = (builtins.elemAt (builtins.elemAt x 0) 2); in builtins.typeOf v'' =
     nix_render
       (NLam ''x''
          (NLet ''v'' (NParen (NElemAt (NParen (NElemAt (NVar ''x'') (NInt 0))) (NInt 2)))
             (NTypeOf (NVar ''v''))))"
    "nix_tokens ''x: (builtins.elemAt (builtins.elemAt x 0) 2)'' =
     nix_render (NLam ''x'' (NParen (NElemAt (NParen (NElemAt (NVar ''x'') (NInt 0))) (NInt 2))))"
    by (simp_all add: nix_tokens_def is_space_def is_word_char_def show_nat.simps)
  have e: "nix_apply
       (NLam ''x''
          (NLet ''v'' (NParen (NElemAt (NParen (NElemAt (NVar ''x'') (NInt 0))) (NInt 2)))
             (NLam ''v'' (NTypeOf (NVar ''v'')))))
       (VList [VList [VInt 10, VInt 11, VInt 12], VList [VInt 20]]) =
     Some (VFun [(''v'', Some (VInt 12)),
                 (''x'', Some (VList [VList [VInt 10, VInt 11, VInt 12], VList [VInt 20]]))]
             ''v'' (NTypeOf (NVar ''v'')))"
    "nix_json
       (NLam ''x''
          (NLet ''v'' (NParen (NElemAt (NParen (NElemAt (NVar ''x'') (NInt 0))) (NInt 2)))
             (NLam ''v'' (NTypeOf (NVar ''v'')))))
       (VList [VList [VInt 10, VInt 11, VInt 12], VList [VInt 20]]) = None"
    "nix_json
       (NLam ''x''
          (NLet ''v'' (NParen (NElemAt (NParen (NElemAt (NVar ''x'') (NInt 0))) (NInt 2)))
             (NTypeOf (NVar ''v''))))
       (VList [VList [VInt 10, VInt 11, VInt 12], VList [VInt 20]]) = Some (VStr ''int'')"
    "nix_json (NLam ''x'' (NParen (NElemAt (NParen (NElemAt (NVar ''x'') (NInt 0))) (NInt 2))))
       (VList [VList [VInt 10, VInt 11, VInt 12], VList [VInt 20]]) = Some (VInt 12)"
    by (simp_all add: nix_json_def nix_apply_def nix_typeOf_def nix_equal_def nix_toString_def)
  show ?thesis
    by (rule conjI [OF replace_word_x_parameter conjI [OF a conjI [OF t(1) conjI [OF e(1) conjI [OF e(2) conjI [OF t(2)
          conjI [OF e(3) conjI [OF b conjI [OF t(3) e(4)]]]]]]]]])
qed

section \<open>Collapsing and smart refresh\<close>

lemma split_dot_append_dot: "split_dot (a @ CHR ''.'' # b) = split_dot a @ split_dot b"
proof (induction a)
  case Nil
  show ?case by simp
next
  case (Cons c cs)
  then show ?case using split_dot_nonempty [of cs]
    by (cases "split_dot cs") auto
qed

lemma join_dot_append:
  "xs \<noteq> [] \<Longrightarrow> ys \<noteq> [] \<Longrightarrow> join_dot (xs @ ys) = join_dot xs @ ''.'' @ join_dot ys"
proof (induction xs rule: join_dot.induct)
  case 1
  then show ?case by simp
next
  case (2 s)
  then show ?case by (cases ys) simp_all
next
  case (3 s t ss)
  then show ?case by simp
qed

lemma isAncestor_iff: "isAncestor p q = (q = p \<or> startsWith q (p @ ''.''))"
proof
  assume "isAncestor p q"
  then obtain rest where r: "split_dot q = split_dot p @ rest"
    by (auto simp: isAncestor_def prefix_def)
  show "q = p \<or> startsWith q (p @ ''.'')"
  proof (cases "rest = []")
    case True
    with r have "join_dot (split_dot q) = join_dot (split_dot p)" by simp
    then show ?thesis by (simp add: join_split_dot)
  next
    case False
    from r have "join_dot (split_dot q) = join_dot (split_dot p @ rest)" by simp
    also have "\<dots> = join_dot (split_dot p) @ ''.'' @ join_dot rest"
      using False split_dot_nonempty by (rule join_dot_append [rotated])
    finally have "q = (p @ ''.'') @ join_dot rest" by (simp add: join_split_dot)
    then show ?thesis using startsWith_append [of "p @ ''.''" "join_dot rest"] by simp
  qed
next
  assume "q = p \<or> startsWith q (p @ ''.'')"
  then show "isAncestor p q"
  proof
    assume "q = p" then show ?thesis by (simp add: isAncestor_def)
  next
    assume "startsWith q (p @ ''.'')"
    then have "q = (p @ ''.'') @ drop (length (p @ ''.'')) q"
      unfolding startsWith_def by (metis append_take_drop_id)
    then obtain r where "q = p @ CHR ''.'' # r" by simp
    then show ?thesis by (simp add: isAncestor_def split_dot_append_dot)
  qed
qed

lemma map_of_map_delete:
  "map_of (map_delete k c) q = (if q = k then None else map_of c q)"
  by (induction c) (auto simp: map_delete_def)

lemma map_of_fold_delete:
  "map_of (fold (\<lambda>k c. if P k then map_delete k c else c) ks c) q =
     (if q \<in> set ks \<and> P q then None else map_of c q)"
  by (induction ks arbitrary: c) (auto simp: map_of_map_delete)

lemma map_of_fold_delete_keys:
  "map_of (fold (\<lambda>k c. if P k then map_delete k c else c) (map fst c) c) q =
     (if P q then None else map_of c q)"
  by (auto simp: map_of_fold_delete map_of_eq_None_iff)

text \<open>
  C6.  After \<^verbatim>\<open>onNodeCollapsed(p)\<close> the cache has no entry for any path \<open>q\<close> whose
  segments start with the segments of \<open>p\<close> (\<open>p\<close> itself included), and the entry of
  every other path is what it was.  The test is on whole segments: collapsing
  \<^verbatim>\<open>programs\<close> leaves \<^verbatim>\<open>programs2\<close> in the cache.
\<close>

theorem onNodeCollapsed_cache:
  "map_of (metadataCache (onNodeCollapsed p st)) q =
     (if isAncestor p q then None else map_of (metadataCache st) q)"
  using map_of_fold_delete_keys [of "\<lambda>k. k = p \<or> startsWith k (p @ ''.'')" "metadataCache st" q]
  by (simp add: onNodeCollapsed_def isAncestor_iff)

theorem onNodeCollapsed_cache_witness:
  "map_of (metadataCache (onNodeCollapsed ''programs''
      \<lparr>expandedPaths = [''programs''],
       metadataCache = [(''programs'', \<lparr>meta_type = SetType, meta_isDrv = False, meta_attrNames = None,
          meta_listLength = None, meta_value = None, meta_timestamp = 0\<rparr>), (''programs.git.enable'', \<lparr>meta_type = SetType, meta_isDrv = False, meta_attrNames = None,
          meta_listLength = None, meta_value = None, meta_timestamp = 0\<rparr>), (''programs2'', \<lparr>meta_type = SetType, meta_isDrv = False, meta_attrNames = None,
          meta_listLength = None, meta_value = None, meta_timestamp = 0\<rparr>)]\<rparr>))
     ''programs'' = None \<and>
   map_of (metadataCache (onNodeCollapsed ''programs''
      \<lparr>expandedPaths = [''programs''],
       metadataCache = [(''programs'', \<lparr>meta_type = SetType, meta_isDrv = False, meta_attrNames = None,
          meta_listLength = None, meta_value = None, meta_timestamp = 0\<rparr>), (''programs.git.enable'', \<lparr>meta_type = SetType, meta_isDrv = False, meta_attrNames = None,
          meta_listLength = None, meta_value = None, meta_timestamp = 0\<rparr>), (''programs2'', \<lparr>meta_type = SetType, meta_isDrv = False, meta_attrNames = None,
          meta_listLength = None, meta_value = None, meta_timestamp = 0\<rparr>)]\<rparr>))
     ''programs.git.enable'' = None \<and>
   map_of (metadataCache (onNodeCollapsed ''programs''
      \<lparr>expandedPaths = [''programs''],
       metadataCache = [(''programs'', \<lparr>meta_type = SetType, meta_isDrv = False, meta_attrNames = None,
          meta_listLength = None, meta_value = None, meta_timestamp = 0\<rparr>), (''programs.git.enable'', \<lparr>meta_type = SetType, meta_isDrv = False, meta_attrNames = None,
          meta_listLength = None, meta_value = None, meta_timestamp = 0\<rparr>), (''programs2'', \<lparr>meta_type = SetType, meta_isDrv = False, meta_attrNames = None,
          meta_listLength = None, meta_value = None, meta_timestamp = 0\<rparr>)]\<rparr>))
     ''programs2'' = Some \<lparr>meta_type = SetType, meta_isDrv = False, meta_attrNames = None,
          meta_listLength = None, meta_value = None, meta_timestamp = 0\<rparr>"
proof -
  let ?m = "\<lparr>meta_type = SetType, meta_isDrv = False, meta_attrNames = None, meta_listLength = None, meta_value = None, meta_timestamp = 0\<rparr>"
  let ?st = "\<lparr>expandedPaths = [''programs''],
       metadataCache = [(''programs'', ?m), (''programs.git.enable'', ?m), (''programs2'', ?m)]\<rparr>"
  have a: "isAncestor ''programs'' ''programs''" "isAncestor ''programs'' ''programs.git.enable''"
    "\<not> isAncestor ''programs'' ''programs2''"
    by (simp_all add: isAncestor_def)
  from onNodeCollapsed_cache [of "''programs''" ?st "''programs''"]
    onNodeCollapsed_cache [of "''programs''" ?st "''programs.git.enable''"]
    onNodeCollapsed_cache [of "''programs''" ?st "''programs2''"] a
  show ?thesis by simp
qed


lemma refresh_loop_eq:
  "refresh_loop f paths c fired = (fold map_delete paths c, fired @ List.map_filter f paths)"
  by (induction paths arbitrary: c fired) (auto simp: List.map_filter_simps split: option.splits)

lemma map_of_fold_map_delete:
  "map_of (fold map_delete paths c) q = (if q \<in> set paths then None else map_of c q)"
  by (induction paths arbitrary: c) (auto simp: map_of_map_delete)

lemma set_sortedPaths: "set (sortedPaths st) = set (expandedPaths st)"
  by (simp add: sortedPaths_def)

lemma sortedPaths_depth:
  assumes "i < j" "j < length (sortedPaths st)"
  shows "depth (sortedPaths st ! j) \<le> depth (sortedPaths st ! i)"
proof -
  let ?k = "\<lambda>a. - int (depth a)"
  have "sorted (map ?k (sortedPaths st))"
    by (simp add: sortedPaths_def)
  then have "map ?k (sortedPaths st) ! i \<le> map ?k (sortedPaths st) ! j"
    using assms sorted_iff_nth_mono [of "map ?k (sortedPaths st)"]
    by (metis length_map less_imp_le_nat)
  then show ?thesis using assms by simp
qed

lemma smartRefresh_eq:
  "smartRefresh f st =
     (st\<lparr>metadataCache :=
          fold map_delete (sortedPaths st)
            (fold (\<lambda>path c. if path \<notin> set (expandedPaths st) then map_delete path c else c)
               (map fst (metadataCache st)) (metadataCache st))\<rparr>,
      List.map_filter f (sortedPaths st))"
  by (simp add: smartRefresh_def Let_def refresh_loop_eq)

lemma smartRefresh_cache_empty:
  "map_of (metadataCache (fst (smartRefresh f st))) q = None"
  using map_of_fold_delete_keys [of "\<lambda>path. path \<notin> set (expandedPaths st)" "metadataCache st" q]
  by (simp add: smartRefresh_eq map_of_fold_map_delete set_sortedPaths)

lemma map_filter_found:
  "\<forall>p\<in>set ps. \<exists>n. f p = Some n \<and> attrPath n = p \<Longrightarrow> map attrPath (List.map_filter f ps) = ps"
  by (induction ps) (auto simp: List.map_filter_simps)

lemma set_map_filter:
  "set (List.map_filter f ps) = {n. \<exists>p\<in>set ps. f p = Some n}"
  by (induction ps) (auto simp: List.map_filter_simps split: option.splits)

text \<open>
  C5, amended.  In every state and for every \<^verbatim>\<open>findNodeByPath\<close>, \<^verbatim>\<open>smartRefresh\<close>
  leaves no entry in the cache: the entries of the paths that are not expanded are
  dropped, and so is the entry of each expanded path.  It walks the expanded paths, each
  once, in the order of \<open>sortedPaths\<close>, in which no path comes before a path with more
  segments, and fires the change event that makes the tree fetch a node again for exactly
  those paths whose node \<^verbatim>\<open>findNodeByPath\<close> finds, in that order; an expanded path
  whose node is not found is invalidated and nothing is fired for it.  No event is fired
  for a node that was not looked up under an expanded path.  When every expanded path has
  a node, the fired nodes are those of \<open>sortedPaths\<close>, deepest first.  The set of
  expanded paths is left as it is.  (The file watcher of \<^verbatim>\<open>extension.ts\<close> calls
  \<^verbatim>\<open>smartRefresh\<close> when its own debounce timer fires after a change.)
\<close>

theorem smartRefresh_deepest_first:
  "snd (smartRefresh findNodeByPath st) = List.map_filter findNodeByPath (sortedPaths st) \<and>
   set (sortedPaths st) = set (expandedPaths st) \<and>
   length (sortedPaths st) = length (expandedPaths st) \<and>
   (\<forall>i j. i < j \<and> j < length (sortedPaths st) \<longrightarrow>
          depth (sortedPaths st ! j) \<le> depth (sortedPaths st ! i)) \<and>
   (\<forall>q. map_of (metadataCache (fst (smartRefresh findNodeByPath st))) q = None) \<and>
   (\<forall>n. n \<in> set (snd (smartRefresh findNodeByPath st)) \<longrightarrow>
          (\<exists>p. p \<in> set (expandedPaths st) \<and> findNodeByPath p = Some n)) \<and>
   ((\<forall>p. p \<in> set (expandedPaths st) \<longrightarrow> (\<exists>n. findNodeByPath p = Some n \<and> attrPath n = p)) \<longrightarrow>
      map attrPath (snd (smartRefresh findNodeByPath st)) = sortedPaths st) \<and>
   expandedPaths (fst (smartRefresh findNodeByPath st)) = expandedPaths st"
proof -
  have fired: "snd (smartRefresh findNodeByPath st) = List.map_filter findNodeByPath (sortedPaths st)"
    by (simp add: smartRefresh_eq)
  have len: "length (sortedPaths st) = length (expandedPaths st)"
    by (simp add: sortedPaths_def)
  have order: "\<forall>i j. i < j \<and> j < length (sortedPaths st) \<longrightarrow>
                depth (sortedPaths st ! j) \<le> depth (sortedPaths st ! i)"
    using sortedPaths_depth by blast
  have inval: "\<forall>q. map_of (metadataCache (fst (smartRefresh findNodeByPath st))) q = None"
    by (simp add: smartRefresh_cache_empty)
  have only: "\<forall>n. n \<in> set (snd (smartRefresh findNodeByPath st)) \<longrightarrow>
          (\<exists>p. p \<in> set (expandedPaths st) \<and> findNodeByPath p = Some n)"
    unfolding fired by (auto simp: set_map_filter set_sortedPaths)
  have found: "(\<forall>p. p \<in> set (expandedPaths st) \<longrightarrow> (\<exists>n. findNodeByPath p = Some n \<and> attrPath n = p)) \<longrightarrow>
      map attrPath (snd (smartRefresh findNodeByPath st)) = sortedPaths st"
    unfolding fired by (auto intro!: map_filter_found simp: set_sortedPaths)
  have same: "expandedPaths (fst (smartRefresh findNodeByPath st)) = expandedPaths st"
    by (simp add: smartRefresh_eq)
  show ?thesis
    by (rule conjI [OF fired conjI [OF set_sortedPaths conjI [OF len conjI [OF order
          conjI [OF inval conjI [OF only conjI [OF found same]]]]]]])
qed

theorem smartRefresh_deepest_first_witness:
  "map attrPath (snd (smartRefresh (\<lambda>p. Some (new_FlakeNode p p Attrset Collapsed))
      \<lparr>expandedPaths = [''a'', ''a.b'', ''c''],
       metadataCache = [(''a'', \<lparr>meta_type = SetType, meta_isDrv = False, meta_attrNames = None,
          meta_listLength = None, meta_value = None, meta_timestamp = 0\<rparr>), (''a.b'', \<lparr>meta_type = SetType, meta_isDrv = False, meta_attrNames = None,
          meta_listLength = None, meta_value = None, meta_timestamp = 0\<rparr>), (''c'', \<lparr>meta_type = SetType, meta_isDrv = False, meta_attrNames = None,
          meta_listLength = None, meta_value = None, meta_timestamp = 0\<rparr>), (''d'', \<lparr>meta_type = SetType, meta_isDrv = False, meta_attrNames = None,
          meta_listLength = None, meta_value = None, meta_timestamp = 0\<rparr>)]\<rparr>)) = [''a.b'', ''a'', ''c''] \<and>
   map_of (metadataCache (fst (smartRefresh (\<lambda>p. Some (new_FlakeNode p p Attrset Collapsed))
      \<lparr>expandedPaths = [''a'', ''a.b'', ''c''],
       metadataCache = [(''a'', \<lparr>meta_type = SetType, meta_isDrv = False, meta_attrNames = None,
          meta_listLength = None, meta_value = None, meta_timestamp = 0\<rparr>), (''a.b'', \<lparr>meta_type = SetType, meta_isDrv = False, meta_attrNames = None,
          meta_listLength = None, meta_value = None, meta_timestamp = 0\<rparr>), (''c'', \<lparr>meta_type = SetType, meta_isDrv = False, meta_attrNames = None,
          meta_listLength = None, meta_value = None, meta_timestamp = 0\<rparr>), (''d'', \<lparr>meta_type = SetType, meta_isDrv = False, meta_attrNames = None,
          meta_listLength = None, meta_value = None, meta_timestamp = 0\<rparr>)]\<rparr>))) ''d'' = None"
proof -
  let ?m = "\<lparr>meta_type = SetType, meta_isDrv = False, meta_attrNames = None, meta_listLength = None, meta_value = None, meta_timestamp = 0\<rparr>"
  let ?f = "\<lambda>p. Some (new_FlakeNode p p Attrset Collapsed)"
  let ?st = "\<lparr>expandedPaths = [''a'', ''a.b'', ''c''],
       metadataCache = [(''a'', ?m), (''a.b'', ?m), (''c'', ?m), (''d'', ?m)]\<rparr>"
  have found: "\<forall>p. p \<in> set (expandedPaths ?st) \<longrightarrow> (\<exists>n. ?f p = Some n \<and> attrPath n = p)"
    by (simp add: new_FlakeNode_def updateAppearance_def set_collapsibleState_def)
  have sorted: "sortedPaths ?st = [''a.b'', ''a'', ''c'']"
    by (simp add: sortedPaths_def depth_def)
  note t = smartRefresh_deepest_first [of ?f ?st]
  from t have "(\<forall>p. p \<in> set (expandedPaths ?st) \<longrightarrow> (\<exists>n. ?f p = Some n \<and> attrPath n = p)) \<longrightarrow>
      map attrPath (snd (smartRefresh ?f ?st)) = sortedPaths ?st"
    by (elim conjE)
  from this [THEN mp, OF found] have fired: "map attrPath (snd (smartRefresh ?f ?st)) = sortedPaths ?st" .
  from t have "\<forall>q. map_of (metadataCache (fst (smartRefresh ?f ?st))) q = None"
    by (elim conjE)
  from this [THEN spec, of "''d''"] have d: "map_of (metadataCache (fst (smartRefresh ?f ?st))) ''d'' = None" .
  from fired sorted have a: "map attrPath (snd (smartRefresh ?f ?st)) = [''a.b'', ''a'', ''c'']"
    by simp
  show ?thesis by (rule conjI [OF a d])
qed

text \<open>
  C5, as stated, fails.  The listing guards the change event with \<^verbatim>\<open>if (node)\<close>: for
  the expanded paths \<open>a\<close>, \<open>a.b\<close> and \<open>c\<close>, with a \<^verbatim>\<open>findNodeByPath\<close> that has no
  node for \<open>a.b\<close>, the events fired are those of \<open>a\<close> and \<open>c\<close>; \<open>a.b\<close> is expanded
  and nothing is re-issued for it.
\<close>

theorem smartRefresh_skips_missing_node:
  "map attrPath (snd (smartRefresh (\<lambda>p. if p = ''a.b'' then None else Some (new_FlakeNode p p Attrset Collapsed))
      \<lparr>expandedPaths = [''a'', ''a.b'', ''c''],
       metadataCache = [(''a'', \<lparr>meta_type = SetType, meta_isDrv = False, meta_attrNames = None,
          meta_listLength = None, meta_value = None, meta_timestamp = 0\<rparr>), (''a.b'', \<lparr>meta_type = SetType, meta_isDrv = False, meta_attrNames = None,
          meta_listLength = None, meta_value = None, meta_timestamp = 0\<rparr>), (''c'', \<lparr>meta_type = SetType, meta_isDrv = False, meta_attrNames = None,
          meta_listLength = None, meta_value = None, meta_timestamp = 0\<rparr>), (''d'', \<lparr>meta_type = SetType, meta_isDrv = False, meta_attrNames = None,
          meta_listLength = None, meta_value = None, meta_timestamp = 0\<rparr>)]\<rparr>)) = [''a'', ''c''] \<and>
   sortedPaths
      \<lparr>expandedPaths = [''a'', ''a.b'', ''c''],
       metadataCache = [(''a'', \<lparr>meta_type = SetType, meta_isDrv = False, meta_attrNames = None,
          meta_listLength = None, meta_value = None, meta_timestamp = 0\<rparr>), (''a.b'', \<lparr>meta_type = SetType, meta_isDrv = False, meta_attrNames = None,
          meta_listLength = None, meta_value = None, meta_timestamp = 0\<rparr>), (''c'', \<lparr>meta_type = SetType, meta_isDrv = False, meta_attrNames = None,
          meta_listLength = None, meta_value = None, meta_timestamp = 0\<rparr>), (''d'', \<lparr>meta_type = SetType, meta_isDrv = False, meta_attrNames = None,
          meta_listLength = None, meta_value = None, meta_timestamp = 0\<rparr>)]\<rparr> = [''a.b'', ''a'', ''c'']"
  by (simp add: smartRefresh_def sortedPaths_def depth_def map_delete_def new_FlakeNode_def
      updateAppearance_def set_collapsibleState_def)

section \<open>Children of a node: batching, caching and fallback\<close>

lemma node_setters [simp]:
  "attrPath (set_nodeType t n) = attrPath n"
  "attrPath (set_collapsibleState c n) = attrPath n"
  "attrPath (set_listIndex i n) = attrPath n"
  "attrPath (set_errorMessage m n) = attrPath n"
  "attrPath (set_cache k n) = attrPath n"
  "nodeType (set_nodeType t n) = t"
  "nodeType (set_collapsibleState c n) = nodeType n"
  "nodeType (set_listIndex i n) = nodeType n"
  "nodeType (set_errorMessage m n) = nodeType n"
  "nodeType (set_cache k n) = nodeType n"
  "cache (set_nodeType t n) = cache n"
  "cache (set_collapsibleState c n) = cache n"
  "cache (set_listIndex i n) = cache n"
  "cache (set_errorMessage m n) = cache n"
  "cache (set_cache k n) = k"
  by (simp_all add: set_nodeType_def set_collapsibleState_def set_listIndex_def
      set_errorMessage_def set_cache_def)

lemma updateAppearance_fields [simp]:
  "attrPath (updateAppearance n) = attrPath n"
  "nodeType (updateAppearance n) = nodeType n"
  "cache (updateAppearance n) = cache n"
  by (cases "nodeType n"; simp add: updateAppearance_def)+

lemma provider_steps [simp]:
  "issued (emitStatus t m st) = issued st"
  "lastGoodChildren (emitStatus t m st) = lastGoodChildren st"
  "prefetchCache (emitStatus t m st) = prefetchCache st"
  "filterPath (emitStatus t m st) = filterPath st"
  "rootPath (emitStatus t m st) = rootPath st"
  "flakePath (emitStatus t m st) = flakePath st"
  "toLowerCase (emitStatus t m st) = toLowerCase st"
  "issued (run_query q st) = issued st @ [q]"
  "lastGoodChildren (run_query q st) = lastGoodChildren st"
  "prefetchCache (run_query q st) = prefetchCache st"
  "filterPath (run_query q st) = filterPath st"
  "rootPath (run_query q st) = rootPath st"
  "flakePath (run_query q st) = flakePath st"
  "toLowerCase (run_query q st) = toLowerCase st"
  "issued (indexPath p st) = issued st"
  "lastGoodChildren (indexPath p st) = lastGoodChildren st"
  "prefetchCache (indexPath p st) = prefetchCache st"
  "filterPath (indexPath p st) = filterPath st"
  "rootPath (indexPath p st) = rootPath st"
  "flakePath (indexPath p st) = flakePath st"
  "toLowerCase (indexPath p st) = toLowerCase st"
  by (simp_all add: emitStatus_def run_query_def indexPath_def)

lemma fold_indexPath [simp]:
  "issued (fold indexPath ps st) = issued st"
  "lastGoodChildren (fold indexPath ps st) = lastGoodChildren st"
  "prefetchCache (fold indexPath ps st) = prefetchCache st"
  "filterPath (fold indexPath ps st) = filterPath st"
  "rootPath (fold indexPath ps st) = rootPath st"
  "flakePath (fold indexPath ps st) = flakePath st"
  "toLowerCase (fold indexPath ps st) = toLowerCase st"
  by (induction ps arbitrary: st) simp_all

lemma applyFilter_cong:
  "filterPath a = filterPath b \<Longrightarrow> rootPath a = rootPath b \<Longrightarrow> toLowerCase a = toLowerCase b \<Longrightarrow>
   applyFilter a cs = applyFilter b cs"
  by (simp add: applyFilter_def)

lemma applyFilter_off: "filterPath st = [] \<Longrightarrow> applyFilter st cs = cs"
  by (simp add: applyFilter_def)

lemma list_child_eq:
  "list_child parent elem =
     FlakeNode (elem_name elem) (attrPath parent @ ''.'' @ bracketed (show_nat (elem_index elem)))
       (if elem_isDrv elem then Derivation else ListElement)
       (if elem_isDrv elem then NoneState else Collapsed)
       (Some (elem_index elem)) None None"
  by (simp add: list_child_def new_FlakeNode_def updateAppearance_def set_collapsibleState_def
      set_listIndex_def Let_def)

lemma fetchListChildren_success:
  assumes "ev_listElementsInfo ev (attrPath el) = Success (Some elements)"
  shows "fetchListChildren ev el st =
           (Returned (map (list_child el) elements),
            updateAppearance (set_nodeType List el),
            emitStatus StatusSuccess
              (''Loaded '' @ show_nat (length elements) @ '' list items'')
              (run_query (GetListElementsInfo (attrPath el)) st))"
proof -
  have "map (list_child (updateAppearance (set_nodeType List el))) elements =
        map (list_child el) elements"
    by (simp add: list_child_eq)
  then show ?thesis using assms by (simp add: fetchListChildren_def Let_def)
qed

lemma fetchChildren_list:
  assumes "ev_valueType ev (attrPath el) = Success ''list''"
    and "ev_listElementsInfo ev (attrPath el) = Success (Some elements)"
  shows "fetchChildren ev now el st =
           (Returned (map (list_child el) elements),
            updateAppearance (set_nodeType List el),
            emitStatus StatusSuccess
              (''Loaded '' @ show_nat (length elements) @ '' list items'')
              (run_query (GetListElementsInfo (attrPath el))
                 (run_query (GetValueType (attrPath el)) st)))"
  using assms fetchListChildren_success [OF assms(2)]
  by (simp add: fetchChildren_def Let_def)

lemma tokens_listElementsInfo:
  "nix_tokens listElementsInfo_expr = nix_render listElementsInfo_ast"
  by (simp add: nix_tokens_def listElementsInfo_expr_def listElementsInfo_ast_def dq_def nl_def
      is_space_def is_word_char_def)

lemma those_map_Some:
  "(\<And>x. x \<in> set xs \<Longrightarrow> f x = Some (g x)) \<Longrightarrow> those (map f xs) = Some (map g xs)"
  by (induction xs) simp_all

lemma eval_element:
  "nix_eval [(''e'', Some (elem_value e)), (''i'', Some (VInt i)), (''xs'', Some v)]
     (NAttrs
        (FCons ''index'' (NVar ''i'')
        (FCons ''name''
           (NSelectOr (NVar ''e'') ''name''
              (NSelectOr (NVar ''e'') ''pname'' (NParen (NToString (NVar ''i'')))))
        (FCons ''isDrv''
           (NOr (NEq (NParen (NSelectOr (NVar ''e'') ''type'' NNull)) (NStr ''derivation''))
                (NParen (NHasAttr (NVar ''e'') ''drvPath'')))
         FNil)))) = Some (element_info i e)"
  by (auto simp: elem_value_def element_info_def nix_equal_def nix_toString_def split: option.splits)

lemma apply_listElementsInfo:
  "nix_apply listElementsInfo_ast (VList (map elem_value xs)) =
     Some (VList (map (\<lambda>i. element_info i (xs ! i)) [0..<length xs]))"
proof -
  let ?v = "VList (map elem_value xs)"
  let ?body = "NAttrs
        (FCons ''index'' (NVar ''i'')
        (FCons ''name''
           (NSelectOr (NVar ''e'') ''name''
              (NSelectOr (NVar ''e'') ''pname'' (NParen (NToString (NVar ''i'')))))
        (FCons ''isDrv''
           (NOr (NEq (NParen (NSelectOr (NVar ''e'') ''type'' NNull)) (NStr ''derivation''))
                (NParen (NHasAttr (NVar ''e'') ''drvPath'')))
         FNil)))"
  have one: "nix_eval [(''i'', Some (VInt i)), (''xs'', Some ?v)]
               (NLet ''e'' (NElemAt (NVar ''xs'') (NVar ''i'')) ?body) =
             Some (element_info i (xs ! i))" if "i \<in> set [0..<length xs]" for i
  proof -
    from that have lt: "i < length xs" by simp
    have "nix_eval [(''i'', Some (VInt i)), (''xs'', Some ?v)] (NElemAt (NVar ''xs'') (NVar ''i'')) =
            Some (elem_value (xs ! i))"
      using lt by simp
    then have "nix_eval [(''i'', Some (VInt i)), (''xs'', Some ?v)]
               (NLet ''e'' (NElemAt (NVar ''xs'') (NVar ''i'')) ?body) =
          nix_eval [(''e'', Some (elem_value (xs ! i))), (''i'', Some (VInt i)), (''xs'', Some ?v)] ?body"
      by (simp only: nix_eval.simps)
    then show ?thesis by (simp only: eval_element)
  qed
  have "those (map (\<lambda>i. nix_eval [(''i'', Some (VInt i)), (''xs'', Some ?v)]
               (NLet ''e'' (NElemAt (NVar ''xs'') (NVar ''i'')) ?body)) [0..<length xs]) =
        Some (map (\<lambda>i. element_info i (xs ! i)) [0..<length xs])"
    by (rule those_map_Some) (rule one)
  then show ?thesis
    by (simp add: nix_apply_def listElementsInfo_ast_def)
qed

lemma json_listElementsInfo:
  "nix_json listElementsInfo_ast (VList (map elem_value xs)) =
     Some (VList (map (\<lambda>i. element_info i (xs ! i)) [0..<length xs]))"
  by (simp add: nix_json_def apply_listElementsInfo element_info_def list_all_iff)

lemma decode_listElementsInfo:
  "decode_elements (VList (map (\<lambda>i. element_info i (xs ! i)) [0..<length xs])) =
     Some (listElementsInfo_apply xs)"
proof -
  have "those (map decode_element (map (\<lambda>i. element_info i (xs ! i)) [0..<length xs])) =
        Some (map (\<lambda>i. \<lparr>elem_index = i,
             elem_name =
               (case e_name (xs ! i) of
                  Some n \<Rightarrow> n
                | None \<Rightarrow> (case e_pname (xs ! i) of Some n \<Rightarrow> n | None \<Rightarrow> show_nat i)),
             elem_isDrv = (e_type (xs ! i) = Some ''derivation'' \<or> e_has_drvPath (xs ! i))\<rparr>)
           [0..<length xs])"
    unfolding map_map
    by (rule those_map_Some) (simp add: decode_element_def element_info_def)
  then show ?thesis
    by (simp add: decode_elements_def listElementsInfo_apply_def Let_def)
qed

lemma elements_reply_nix: "elements_reply (nix_json listElementsInfo_ast v) (nix_elements_reply v)"
  by (simp add: elements_reply_def nix_elements_reply_def split: option.splits)

text \<open>
  C4.  For a node whose value the evaluator reports as a list, of any length,
  \<^verbatim>\<open>getChildren\<close> hands exactly two queries to the runner: the type query and the one
  batched element query; no query per element is made.  The batched query passes the
  expression of \<^verbatim>\<open>getListElementsInfo\<close> to \<^verbatim>\<open>--apply\<close>; that string has the tokens
  of \<open>listElementsInfo_ast\<close>, and applied to a list \<open>xs\<close> the expression evaluates to
  one entry per index, in order, with the index, the element's \<open>name\<close>, else its
  \<open>pname\<close>, else the decimal index as the name, and the flag that is true when the
  element's \<open>type\<close> is \<^verbatim>\<open>"derivation"\<close> or it has a \<open>drvPath\<close>.  When the runner
  replies with that data, the children are, in index order, one node per element:
  labelled with that name; at the path \<open>parent.[i]\<close>; a derivation node that cannot be
  expanded when the flag is set, and an expandable list element otherwise.  The children
  pass through the search filter, which is the identity when no filter is set.
\<close>

theorem list_children_one_batched_query:
  assumes "flakePath st \<noteq> []"
    and "getCachedChildren now 60000 el = None"
    and "ev_valueType ev (attrPath el) = Success ''list''"
    and "elements_reply (nix_json listElementsInfo_ast (VList (map elem_value xs)))
           (ev_listElementsInfo ev (attrPath el))"
  shows "issued (snd (snd (getChildren ev now (Some el) st))) =
           issued st @ [GetValueType (attrPath el), GetListElementsInfo (attrPath el)] \<and>
         queryArgs (GetListElementsInfo (attrPath el)) =
           [''eval'', ''--json'', ''.#'' @ attrPath el, ''--apply'', listElementsInfo_expr] \<and>
         nix_tokens listElementsInfo_expr = nix_render listElementsInfo_ast \<and>
         nix_json listElementsInfo_ast (VList (map elem_value xs)) =
           Some (VList (map (\<lambda>i. VAttrs
                   [(''index'', VInt i),
                    (''isDrv'', VBool (e_type (xs ! i) = Some ''derivation'' \<or> e_has_drvPath (xs ! i))),
                    (''name'',
                     VStr (case e_name (xs ! i) of
                             Some n \<Rightarrow> n
                           | None \<Rightarrow> (case e_pname (xs ! i) of Some n \<Rightarrow> n | None \<Rightarrow> show_nat i)))])
                 [0..<length xs])) \<and>
         fst (getChildren ev now (Some el) st) =
           applyFilter st
             (map (\<lambda>i. FlakeNode
                     (case e_name (xs ! i) of
                        Some n \<Rightarrow> n
                      | None \<Rightarrow> (case e_pname (xs ! i) of Some n \<Rightarrow> n | None \<Rightarrow> show_nat i))
                     (attrPath el @ ''.'' @ bracketed (show_nat i))
                     (if e_type (xs ! i) = Some ''derivation'' \<or> e_has_drvPath (xs ! i)
                      then Derivation else ListElement)
                     (if e_type (xs ! i) = Some ''derivation'' \<or> e_has_drvPath (xs ! i)
                      then NoneState else Collapsed)
                     (Some i) None None)
                [0..<length xs])"
proof -
  let ?elems = "listElementsInfo_apply xs"
  let ?cs = "map (list_child el) ?elems"
  note j = json_listElementsInfo [of xs]
  have reply: "ev_listElementsInfo ev (attrPath el) = Success (Some ?elems)"
    using assms(4) unfolding j by (simp add: elements_reply_def decode_listElementsInfo)
  have f: "fetchChildren ev now el st =
           (Returned ?cs, updateAppearance (set_nodeType List el),
            emitStatus StatusSuccess
              (''Loaded '' @ show_nat (length ?elems) @ '' list items'')
              (run_query (GetListElementsInfo (attrPath el))
                 (run_query (GetValueType (attrPath el)) st)))"
    using assms(3) reply by (rule fetchChildren_list)
  have q: "issued (snd (snd (getChildren ev now (Some el) st))) =
           issued st @ [GetValueType (attrPath el), GetListElementsInfo (attrPath el)]"
    using assms(1,2) by (simp add: getChildren_def f Let_def)
  have a: "queryArgs (GetListElementsInfo (attrPath el)) =
           [''eval'', ''--json'', ''.#'' @ attrPath el, ''--apply'', listElementsInfo_expr]"
    by simp
  have "fst (getChildren ev now (Some el) st) =
          applyFilter (fold indexPath (map attrPath ?cs)
              (emitStatus StatusSuccess
              (''Loaded '' @ show_nat (length ?elems) @ '' list items'')
              (run_query (GetListElementsInfo (attrPath el))
                 (run_query (GetValueType (attrPath el)) st)))) ?cs"
    using assms(1,2) by (simp add: getChildren_def f Let_def)
  also have "\<dots> = applyFilter st ?cs"
    by (rule applyFilter_cong) simp_all
  finally have c: "fst (getChildren ev now (Some el) st) = applyFilter st ?cs" .
  have "?cs = map (\<lambda>i. FlakeNode
                     (case e_name (xs ! i) of
                        Some n \<Rightarrow> n
                      | None \<Rightarrow> (case e_pname (xs ! i) of Some n \<Rightarrow> n | None \<Rightarrow> show_nat i))
                     (attrPath el @ ''.'' @ bracketed (show_nat i))
                     (if e_type (xs ! i) = Some ''derivation'' \<or> e_has_drvPath (xs ! i)
                      then Derivation else ListElement)
                     (if e_type (xs ! i) = Some ''derivation'' \<or> e_has_drvPath (xs ! i)
                      then NoneState else Collapsed)
                     (Some i) None None)
                [0..<length xs]"
    by (simp add: listElementsInfo_apply_def list_child_eq Let_def)
  with c have c': "fst (getChildren ev now (Some el) st) =
           applyFilter st
             (map (\<lambda>i. FlakeNode
                     (case e_name (xs ! i) of
                        Some n \<Rightarrow> n
                      | None \<Rightarrow> (case e_pname (xs ! i) of Some n \<Rightarrow> n | None \<Rightarrow> show_nat i))
                     (attrPath el @ ''.'' @ bracketed (show_nat i))
                     (if e_type (xs ! i) = Some ''derivation'' \<or> e_has_drvPath (xs ! i)
                      then Derivation else ListElement)
                     (if e_type (xs ! i) = Some ''derivation'' \<or> e_has_drvPath (xs ! i)
                      then NoneState else Collapsed)
                     (Some i) None None)
                [0..<length xs])" by simp
  have j': "nix_json listElementsInfo_ast (VList (map elem_value xs)) =
           Some (VList (map (\<lambda>i. VAttrs
                   [(''index'', VInt i),
                    (''isDrv'', VBool (e_type (xs ! i) = Some ''derivation'' \<or> e_has_drvPath (xs ! i))),
                    (''name'',
                     VStr (case e_name (xs ! i) of
                             Some n \<Rightarrow> n
                           | None \<Rightarrow> (case e_pname (xs ! i) of Some n \<Rightarrow> n | None \<Rightarrow> show_nat i)))])
                 [0..<length xs]))"
    using j by (simp only: element_info_def)
  show ?thesis
    by (rule conjI [OF q conjI [OF a conjI [OF tokens_listElementsInfo conjI [OF j' c']]]])
qed



lemma getCachedChildren_cacheChildren:
  "now' - now \<le> maxAge \<Longrightarrow> getCachedChildren now' maxAge (cacheChildren now cs n) = Some cs"
  by (simp add: getCachedChildren_def cacheChildren_def)

lemma attrPath_cacheChildren [simp]: "attrPath (cacheChildren now cs n) = attrPath n"
  by (simp add: cacheChildren_def)




lemma attrPath_setError [simp]: "attrPath (setError m n) = attrPath n"
  by (simp add: setError_def)

lemma fetchLeafValue_frame:
  "fetchLeafValue ev now n st = (n1, st1) \<Longrightarrow>
   attrPath n1 = attrPath n \<and> lastGoodChildren st1 = lastGoodChildren st \<and>
   filterPath st1 = filterPath st \<and> rootPath st1 = rootPath st \<and> flakePath st1 = flakePath st \<and>
   toLowerCase st1 = toLowerCase st"
  by (auto simp: fetchLeafValue_def Let_def split: NixEvalResult.splits)

lemma fetchAttrsetChildren_frame:
  "fetchAttrsetChildren ev n st = (r, n1, st1) \<Longrightarrow>
   attrPath n1 = attrPath n \<and> lastGoodChildren st1 = lastGoodChildren st \<and>
   filterPath st1 = filterPath st \<and> rootPath st1 = rootPath st \<and> flakePath st1 = flakePath st \<and>
   toLowerCase st1 = toLowerCase st \<and>
   (nodeType n \<noteq> Error \<longrightarrow> nodeType n1 \<noteq> Error)"
  by (auto simp: fetchAttrsetChildren_def Let_def split: NixEvalResult.splits option.splits if_splits)

lemma fetchListChildren_frame:
  "fetchListChildren ev n st = (r, n1, st1) \<Longrightarrow>
   attrPath n1 = attrPath n \<and> lastGoodChildren st1 = lastGoodChildren st \<and>
   filterPath st1 = filterPath st \<and> rootPath st1 = rootPath st \<and> flakePath st1 = flakePath st \<and>
   toLowerCase st1 = toLowerCase st \<and>
   nodeType n1 \<noteq> Error"
  by (auto simp: fetchListChildren_def Let_def split: NixEvalResult.splits option.splits)

lemma fetchChildren_frame:
  assumes "fetchChildren ev now n st = (r, n1, st1)"
  shows "attrPath n1 = attrPath n \<and> lastGoodChildren st1 = lastGoodChildren st \<and>
   filterPath st1 = filterPath st \<and> rootPath st1 = rootPath st \<and> flakePath st1 = flakePath st \<and>
   toLowerCase st1 = toLowerCase st \<and>
   (nodeType n \<noteq> Error \<longrightarrow> r \<noteq> Returned [] \<longrightarrow> nodeType n1 \<noteq> Error)"
proof (cases "ev_valueType ev (attrPath n)")
  case (Failure e)
  with assms show ?thesis by (auto simp: fetchChildren_def Let_def)
next
  case (Success t)
  show ?thesis
  proof (cases "t = ''set''")
    case True
    with assms Success have
      "fetchAttrsetChildren ev n (run_query (GetValueType (attrPath n)) st) = (r, n1, st1)"
      by (simp add: fetchChildren_def Let_def)
    from fetchAttrsetChildren_frame [OF this] show ?thesis by simp
  next
    case False
    show ?thesis
    proof (cases "t = ''list''")
      case True
      with assms Success have
        "fetchListChildren ev n (run_query (GetValueType (attrPath n)) st) = (r, n1, st1)"
        by (simp add: fetchChildren_def Let_def)
      from fetchListChildren_frame [OF this] show ?thesis by simp
    next
      case nl: False
      obtain n2 st2 where l: "fetchLeafValue ev now
          (set_collapsibleState NoneState (set_nodeType Leaf n))
          (run_query (GetValueType (attrPath n)) st) = (n2, st2)"
        by (cases "fetchLeafValue ev now
          (set_collapsibleState NoneState (set_nodeType Leaf n))
          (run_query (GetValueType (attrPath n)) st)") blast
      with assms Success False nl have "r = Returned []" "n1 = n2" "st1 = st2"
        by (simp_all add: fetchChildren_def Let_def)
      with fetchLeafValue_frame [OF l] show ?thesis by simp
    qed
  qed
qed

lemma getChildren_cached:
  "flakePath st \<noteq> [] \<Longrightarrow> getCachedChildren now 60000 el = Some cs \<Longrightarrow>
   getChildren ev now (Some el) st = (applyFilter st cs, Some el, st)"
  by (simp add: getChildren_def)

lemma getChildren_fetch_nonempty:
  assumes "flakePath st \<noteq> []" and "getCachedChildren now 60000 el = None"
    and "fetchChildren ev now el st = (Returned cs, el1, st1)"
    and "cs \<noteq> []" and "nodeType el1 \<noteq> Error"
  shows "getChildren ev now (Some el) st =
           (applyFilter st cs, Some (cacheChildren now cs el1),
            (fold indexPath (map attrPath cs) st1)
              \<lparr>lastGoodChildren :=
                 (lastGoodChildren (fold indexPath (map attrPath cs) st1))(attrPath el1 \<mapsto> cs)\<rparr>)"
proof -
  from fetchChildren_frame [OF assms(3)] have
    "applyFilter (fold indexPath (map attrPath cs) st1) cs = applyFilter st cs"
    by (intro applyFilter_cong) simp_all
  then show ?thesis
    using assms by (simp add: getChildren_def Let_def)
qed

lemma fetchChildren_issued:
  assumes "fetchChildren ev now n st = (r, n1, st1)"
  shows "prefix (issued st @ [GetValueType (attrPath n)]) (issued st1)"
proof (cases "ev_valueType ev (attrPath n)")
  case (Failure e)
  with assms show ?thesis by (auto simp: fetchChildren_def Let_def)
next
  case (Success t)
  show ?thesis
  proof (cases "t = ''set''")
    case True
    with assms Success have
      "fetchAttrsetChildren ev n (run_query (GetValueType (attrPath n)) st) = (r, n1, st1)"
      by (simp add: fetchChildren_def Let_def)
    then show ?thesis
      by (auto simp: fetchAttrsetChildren_def Let_def split: NixEvalResult.splits option.splits if_splits)
  next
    case False
    show ?thesis
    proof (cases "t = ''list''")
      case True
      with assms Success have
        "fetchListChildren ev n (run_query (GetValueType (attrPath n)) st) = (r, n1, st1)"
        by (simp add: fetchChildren_def Let_def)
      then show ?thesis
        by (auto simp: fetchListChildren_def Let_def split: NixEvalResult.splits option.splits)
    next
      case nl: False
      with assms Success False show ?thesis
        by (auto simp: fetchChildren_def fetchLeafValue_def Let_def split: NixEvalResult.splits)
    qed
  qed
qed

lemma getCachedChildren_later:
  "getCachedChildren now maxAge n = None \<Longrightarrow> now \<le> now' \<Longrightarrow> cache n1 = cache n \<Longrightarrow>
   getCachedChildren now' maxAge n1 = None"
  by (auto simp: getCachedChildren_def split: option.splits if_splits)

lemma fetchChildren_cache:
  assumes "fetchChildren ev now n st = (r, n1, st1)"
  shows "cache n1 = cache n \<or> (\<exists>v. cache n1 = Some (FlakeNodeCache None (Some v) now))"
proof (cases "ev_valueType ev (attrPath n)")
  case (Failure e)
  with assms show ?thesis by (auto simp: fetchChildren_def Let_def)
next
  case (Success t)
  show ?thesis
  proof (cases "t = ''set''")
    case True
    with assms Success have
      "fetchAttrsetChildren ev n (run_query (GetValueType (attrPath n)) st) = (r, n1, st1)"
      by (simp add: fetchChildren_def Let_def)
    then show ?thesis
      by (auto simp: fetchAttrsetChildren_def Let_def split: NixEvalResult.splits option.splits if_splits)
  next
    case False
    show ?thesis
    proof (cases "t = ''list''")
      case True
      with assms Success have
        "fetchListChildren ev n (run_query (GetValueType (attrPath n)) st) = (r, n1, st1)"
        by (simp add: fetchChildren_def Let_def)
      then show ?thesis
        by (auto simp: fetchListChildren_def Let_def split: NixEvalResult.splits option.splits)
    next
      case nl: False
      with assms Success False show ?thesis
        by (auto simp: fetchChildren_def fetchLeafValue_def setError_def Let_def split: NixEvalResult.splits)
    qed
  qed
qed

lemma fetchChildren_not_cached:
  assumes "fetchChildren ev now n st = (r, n1, st1)"
    and "getCachedChildren now 60000 n = None" and "now \<le> now'"
  shows "getCachedChildren now' 60000 n1 = None"
  using fetchChildren_cache [OF assms(1)] assms(2,3)
  by (auto simp: getCachedChildren_def split: option.splits if_splits)

lemma getChildren_catch_issued [simp]:
  "issued (snd (snd (getChildren_catch m e st))) = issued st"
  by (simp add: getChildren_catch_def Let_def split: option.splits)

lemma getChildren_issued:
  assumes "flakePath st \<noteq> []" and "getCachedChildren now 60000 el = None"
  shows "prefix (issued st @ [GetValueType (attrPath el)])
           (issued (snd (snd (getChildren ev now (Some el) st))))"
proof -
  obtain r el1 st1 where f: "fetchChildren ev now el st = (r, el1, st1)"
    by (cases "fetchChildren ev now el st") blast
  have "issued (snd (snd (getChildren ev now (Some el) st))) = issued st1"
    using assms f by (cases r) (simp_all add: getChildren_def Let_def)
  with fetchChildren_issued [OF f] show ?thesis by simp
qed

lemma fetchTopLevelOutputs_issued:
  "issued (snd (fetchTopLevelOutputs ev st)) = issued st @ [FlakeShow]"
  by (simp add: fetchTopLevelOutputs_def Let_def split: NixEvalResult.splits option.splits)

lemma getChildren_root_issued:
  assumes "flakePath st \<noteq> []"
  shows "prefix (issued st @ [if rootPath st = [] then FlakeShow else GetValueType (rootPath st)])
           (issued (snd (snd (getChildren ev now None st))))"
proof (cases "rootPath st = []")
  case True
  obtain r st1 where f: "fetchTopLevelOutputs ev st = (r, st1)"
    by (cases "fetchTopLevelOutputs ev st") blast
  with fetchTopLevelOutputs_issued [of ev st] have i: "issued st1 = issued st @ [FlakeShow]" by simp
  have "issued (snd (snd (getChildren ev now None st))) = issued st1"
    using assms True f by (cases r) (simp_all add: getChildren_def getRootChildren_def)
  with i True show ?thesis by simp
next
  case False
  let ?root = "new_FlakeNode (or_default (last (split_dot (rootPath st))) ''root'') (rootPath st) Attrset Expanded"
  obtain r el1 st1 where f: "fetchChildren ev now ?root st = (r, el1, st1)"
    by (cases "fetchChildren ev now ?root st") blast
  have p: "attrPath ?root = rootPath st"
    by (simp add: new_FlakeNode_def)
  have "issued (snd (snd (getChildren ev now None st))) = issued st1"
    using assms False f by (cases r) (simp_all add: getChildren_def getRootChildren_def)
  with fetchChildren_issued [OF f] p False show ?thesis by simp
qed

lemma getChildren_fetch_empty:
  assumes "flakePath st \<noteq> []" and "getCachedChildren now 60000 el = None"
    and "fetchChildren ev now el st = (Returned [], el1, st1)"
  shows "getChildren ev now (Some el) st = ([], Some el1, st1)"
  using assms by (simp add: getChildren_def Let_def applyFilter_def)

text \<open>
  C7, amended.  For a node that \<^verbatim>\<open>getChildren\<close> receives as its element and whose
  cache holds no fresh children, so that the children are fetched:
  when the fetch returns at least one child, the node is not an error node and no query
  failed, \<^verbatim>\<open>getChildren\<close> writes the children into the node's cache with the current
  time; a call within the following 60000 ms returns them from the cache, whatever the
  evaluator would answer, and leaves the provider, and with it the list of issued
  queries, as it is.
  When the fetch returns no children, the cache of the node is not written: the call
  returns the node and the provider as the fetch left them, the node has no cached
  children at any later time, and the next call for it hands the type query to the runner
  again.
  The root call, which has no element, reads no cache: in every state it issues its first
  query, \<^verbatim>\<open>nix flake show\<close> or the type query of the configured root path.
\<close>

theorem nonempty_children_cached:
  assumes "flakePath st \<noteq> []" and "getCachedChildren now 60000 el = None"
    and "fetchChildren ev now el st = (Returned cs, el1, st1)"
  shows "(cs \<noteq> [] \<and> nodeType el \<noteq> Error \<and> children_query_error ev st (attrPath el) = None \<and>
          now' - now \<le> 60000 \<longrightarrow>
            fst (getChildren ev now (Some el) st) = applyFilter st cs \<and>
            fst (snd (getChildren ev now (Some el) st)) = Some (cacheChildren now cs el1) \<and>
            getCachedChildren now' 60000 (cacheChildren now cs el1) = Some cs \<and>
            getChildren ev' now' (fst (snd (getChildren ev now (Some el) st)))
                (snd (snd (getChildren ev now (Some el) st))) =
              (applyFilter st cs, fst (snd (getChildren ev now (Some el) st)),
               snd (snd (getChildren ev now (Some el) st)))) \<and>
         (cs = [] \<and> now \<le> now' \<longrightarrow>
            getChildren ev now (Some el) st = ([], Some el1, st1) \<and>
            getCachedChildren now' 60000 el1 = None \<and>
            prefix (issued st1 @ [GetValueType (attrPath el)])
              (issued (snd (snd (getChildren ev' now' (Some el1) st1))))) \<and>
         prefix (issued st @ [if rootPath st = [] then FlakeShow else GetValueType (rootPath st)])
           (issued (snd (snd (getChildren ev' now' None st))))"
proof -
  note fr = fetchChildren_frame [OF assms(3)]
  have A: "cs \<noteq> [] \<and> nodeType el \<noteq> Error \<and> children_query_error ev st (attrPath el) = None \<and>
          now' - now \<le> 60000 \<longrightarrow>
            fst (getChildren ev now (Some el) st) = applyFilter st cs \<and>
            fst (snd (getChildren ev now (Some el) st)) = Some (cacheChildren now cs el1) \<and>
            getCachedChildren now' 60000 (cacheChildren now cs el1) = Some cs \<and>
            getChildren ev' now' (fst (snd (getChildren ev now (Some el) st)))
                (snd (snd (getChildren ev now (Some el) st))) =
              (applyFilter st cs, fst (snd (getChildren ev now (Some el) st)),
               snd (snd (getChildren ev now (Some el) st)))"
  proof (intro impI, elim conjE)
    assume h: "cs \<noteq> []" "nodeType el \<noteq> Error" "now' - now \<le> 60000"
    from fr h(1,2) have ne: "nodeType el1 \<noteq> Error" by simp
    let ?st2 = "(fold indexPath (map attrPath cs) st1)
                \<lparr>lastGoodChildren :=
                   (lastGoodChildren (fold indexPath (map attrPath cs) st1))(attrPath el1 \<mapsto> cs)\<rparr>"
    have g: "getChildren ev now (Some el) st = (applyFilter st cs, Some (cacheChildren now cs el1), ?st2)"
      using assms(1,2,3) h(1) ne by (rule getChildren_fetch_nonempty)
    have c: "getCachedChildren now' 60000 (cacheChildren now cs el1) = Some cs"
      using h(3) by (rule getCachedChildren_cacheChildren)
    have fp: "flakePath ?st2 \<noteq> []"
      using fr assms(1) by simp
    have "applyFilter ?st2 cs = applyFilter st cs"
      using fr by (intro applyFilter_cong) simp_all
    with getChildren_cached [OF fp c, of ev'] have
      "getChildren ev' now' (Some (cacheChildren now cs el1)) ?st2 =
         (applyFilter st cs, Some (cacheChildren now cs el1), ?st2)"
      by simp
    with g c show "fst (getChildren ev now (Some el) st) = applyFilter st cs \<and>
            fst (snd (getChildren ev now (Some el) st)) = Some (cacheChildren now cs el1) \<and>
            getCachedChildren now' 60000 (cacheChildren now cs el1) = Some cs \<and>
            getChildren ev' now' (fst (snd (getChildren ev now (Some el) st)))
                (snd (snd (getChildren ev now (Some el) st))) =
              (applyFilter st cs, fst (snd (getChildren ev now (Some el) st)),
               snd (snd (getChildren ev now (Some el) st)))" by simp
  qed
  have B: "cs = [] \<and> now \<le> now' \<longrightarrow>
            getChildren ev now (Some el) st = ([], Some el1, st1) \<and>
            getCachedChildren now' 60000 el1 = None \<and>
            prefix (issued st1 @ [GetValueType (attrPath el)])
              (issued (snd (snd (getChildren ev' now' (Some el1) st1))))"
  proof (intro impI, elim conjE)
    assume h: "cs = []" "now \<le> now'"
    from assms(3) h(1) have f: "fetchChildren ev now el st = (Returned [], el1, st1)" by simp
    have g: "getChildren ev now (Some el) st = ([], Some el1, st1)"
      using assms(1,2) f by (rule getChildren_fetch_empty)
    have n: "getCachedChildren now' 60000 el1 = None"
      using f assms(2) h(2) by (rule fetchChildren_not_cached)
    have fp: "flakePath st1 \<noteq> []" using fr assms(1) by simp
    from fr have p: "attrPath el1 = attrPath el" by simp
    have i: "prefix (issued st1 @ [GetValueType (attrPath el)])
              (issued (snd (snd (getChildren ev' now' (Some el1) st1))))"
      using getChildren_issued [OF fp n, of ev'] unfolding p .
    show "getChildren ev now (Some el) st = ([], Some el1, st1) \<and>
            getCachedChildren now' 60000 el1 = None \<and>
            prefix (issued st1 @ [GetValueType (attrPath el)])
              (issued (snd (snd (getChildren ev' now' (Some el1) st1))))"
      by (rule conjI [OF g conjI [OF n i]])
  qed
  note C = getChildren_root_issued [OF assms(1), of ev' now']
  show ?thesis by (rule conjI [OF A conjI [OF B C]])
qed





lemmas node_eval = new_FlakeNode_def updateAppearance_def set_collapsibleState_def
  set_nodeType_def set_errorMessage_def set_listIndex_def set_cache_def createChild_def
  createErrorNode_def setError_def cacheChildren_def getCachedChildren_def

lemmas provider_eval = new_Provider_def fixed_evaluator_def emitStatus_def run_query_def
  indexPath_def or_default_def applyFilter_def lastGood_or_error_def

text \<open>
  C7, as stated, fails.  An attribute set without attributes is a successful, empty
  result; \<^verbatim>\<open>getChildren\<close> leaves the node without a cache entry, and the next call, one
  millisecond later, issues the same three queries again.  The root call has no node to
  cache on: two root calls one millisecond apart run \<^verbatim>\<open>nix flake show\<close> twice.
\<close>

theorem empty_children_not_cached:
  "fst (getChildren
          (fixed_evaluator (Success ''set'') (Success False) (Success (Some [])) (Failure []))
          0 (Some (new_FlakeNode ''x'' ''x'' Attrset Collapsed)) (new_Provider ''/w'' [])) = [] \<and>
   fst (snd (getChildren
          (fixed_evaluator (Success ''set'') (Success False) (Success (Some [])) (Failure []))
          0 (Some (new_FlakeNode ''x'' ''x'' Attrset Collapsed)) (new_Provider ''/w'' []))) =
     Some (FlakeNode ''x'' ''x'' Attrset Collapsed None None None) \<and>
   getCachedChildren 1 60000 (FlakeNode ''x'' ''x'' Attrset Collapsed None None None) = None \<and>
   issued (snd (snd (getChildren
          (fixed_evaluator (Success ''set'') (Success False) (Success (Some [])) (Failure []))
          0 (Some (new_FlakeNode ''x'' ''x'' Attrset Collapsed)) (new_Provider ''/w'' [])))) =
     [GetValueType ''x'', IsDerivation ''x'', GetAttrNames ''x''] \<and>
   issued (snd (snd (getChildren
          (fixed_evaluator (Success ''set'') (Success False) (Success (Some [])) (Failure []))
          1 (Some (FlakeNode ''x'' ''x'' Attrset Collapsed None None None))
          (snd (snd (getChildren
             (fixed_evaluator (Success ''set'') (Success False) (Success (Some [])) (Failure []))
             0 (Some (new_FlakeNode ''x'' ''x'' Attrset Collapsed)) (new_Provider ''/w'' []))))))) =
     [GetValueType ''x'', IsDerivation ''x'', GetAttrNames ''x'',
      GetValueType ''x'', IsDerivation ''x'', GetAttrNames ''x''] \<and>
   map label (fst (getChildren
          ((fixed_evaluator (Failure []) (Failure []) (Failure []) (Failure []))
             \<lparr>ev_flakeShow := Success (Some [''packages''])\<rparr>)
          0 None (new_Provider ''/w'' []))) = [''packages''] \<and>
   issued (snd (snd (getChildren
          ((fixed_evaluator (Failure []) (Failure []) (Failure []) (Failure []))
             \<lparr>ev_flakeShow := Success (Some [''packages''])\<rparr>)
          1 None
          (snd (snd (getChildren
             ((fixed_evaluator (Failure []) (Failure []) (Failure []) (Failure []))
                \<lparr>ev_flakeShow := Success (Some [''packages''])\<rparr>)
             0 None (new_Provider ''/w'' []))))))) = [FlakeShow, FlakeShow]"
  by (simp add: getChildren_def getRootChildren_def fetchTopLevelOutputs_def fetchChildren_def
      fetchAttrsetChildren_def Let_def node_eval provider_eval)

theorem list_children_one_batched_query_witness:
  "fst (getChildren
     (fixed_evaluator (Success ''list'') (Failure []) (Failure [])
       (nix_elements_reply (VList (map elem_value
       [\<lparr>e_name = Some ''git'', e_pname = Some ''git-pkg'', e_type = Some ''derivation'', e_has_drvPath = True\<rparr>,
        \<lparr>e_name = None, e_pname = None, e_type = None, e_has_drvPath = False\<rparr>,
        \<lparr>e_name = None, e_pname = Some ''vim'', e_type = None, e_has_drvPath = True\<rparr>]))))
     0 (Some (new_FlakeNode ''x'' ''x'' Attrset Collapsed)) (new_Provider ''/w'' [])) =
     [FlakeNode ''git'' ''x.[0]'' Derivation NoneState (Some 0) None None,
      FlakeNode ''1'' ''x.[1]'' ListElement Collapsed (Some 1) None None,
      FlakeNode ''vim'' ''x.[2]'' Derivation NoneState (Some 2) None None] \<and>
   issued (snd (snd (getChildren
     (fixed_evaluator (Success ''list'') (Failure []) (Failure [])
       (nix_elements_reply (VList (map elem_value
       [\<lparr>e_name = Some ''git'', e_pname = Some ''git-pkg'', e_type = Some ''derivation'', e_has_drvPath = True\<rparr>,
        \<lparr>e_name = None, e_pname = None, e_type = None, e_has_drvPath = False\<rparr>,
        \<lparr>e_name = None, e_pname = Some ''vim'', e_type = None, e_has_drvPath = True\<rparr>]))))
     0 (Some (new_FlakeNode ''x'' ''x'' Attrset Collapsed)) (new_Provider ''/w'' [])))) =
     [GetValueType ''x'', GetListElementsInfo ''x''] \<and>
   length (fst (getChildren
     (fixed_evaluator (Success ''list'') (Failure []) (Failure [])
       (nix_elements_reply (VList (map elem_value (replicate 500 \<lparr>e_name = None, e_pname = None, e_type = None, e_has_drvPath = False\<rparr>)))))
     0 (Some (new_FlakeNode ''x'' ''x'' Attrset Collapsed)) (new_Provider ''/w'' []))) = 500 \<and>
   issued (snd (snd (getChildren
     (fixed_evaluator (Success ''list'') (Failure []) (Failure [])
       (nix_elements_reply (VList (map elem_value (replicate 500 \<lparr>e_name = None, e_pname = None, e_type = None, e_has_drvPath = False\<rparr>)))))
     0 (Some (new_FlakeNode ''x'' ''x'' Attrset Collapsed)) (new_Provider ''/w'' [])))) =
     [GetValueType ''x'', GetListElementsInfo ''x'']"
proof -
  let ?el = "(new_FlakeNode ''x'' ''x'' Attrset Collapsed)"
  let ?st = "(new_Provider ''/w'' [])"
  let ?xs = "[\<lparr>e_name = Some ''git'', e_pname = Some ''git-pkg'', e_type = Some ''derivation'', e_has_drvPath = True\<rparr>,
        \<lparr>e_name = None, e_pname = None, e_type = None, e_has_drvPath = False\<rparr>,
        \<lparr>e_name = None, e_pname = Some ''vim'', e_type = None, e_has_drvPath = True\<rparr>]"
  let ?ys = "replicate 500 \<lparr>e_name = None, e_pname = None, e_type = None, e_has_drvPath = False\<rparr>"
  let ?ev = "\<lambda>zs. fixed_evaluator (Success ''list'') (Failure []) (Failure [])
       (nix_elements_reply (VList (map elem_value zs)))"
  have h: "flakePath ?st \<noteq> []" "getCachedChildren 0 60000 ?el = None"
    "\<And>zs. ev_valueType (?ev zs) (attrPath ?el) = Success ''list''"
    by (simp_all add: node_eval provider_eval)
  have r: "elements_reply (nix_json listElementsInfo_ast (VList (map elem_value zs)))
             (ev_listElementsInfo (?ev zs) (attrPath ?el))" for zs
    using elements_reply_nix [of "VList (map elem_value zs)"] by (simp add: fixed_evaluator_def)
  have p: "attrPath ?el = ''x''" "filterPath ?st = []"
    by (simp_all add: node_eval provider_eval)
  note tx = list_children_one_batched_query [OF h(1,2) h(3) r, of ?xs]
  from tx have "issued (snd (snd (getChildren (?ev ?xs) 0 (Some ?el) ?st))) =
           issued ?st @ [GetValueType (attrPath ?el), GetListElementsInfo (attrPath ?el)]"
    by (rule conjunct1)
  then have b: "issued (snd (snd (getChildren (?ev ?xs) 0 (Some ?el) ?st))) =
     [GetValueType ''x'', GetListElementsInfo ''x'']"
    by (simp add: p new_Provider_def)
  from tx have "fst (getChildren (?ev ?xs) 0 (Some ?el) ?st) =
           applyFilter ?st
             (map (\<lambda>i. FlakeNode
                     (case e_name (?xs ! i) of
                        Some n \<Rightarrow> n
                      | None \<Rightarrow> (case e_pname (?xs ! i) of Some n \<Rightarrow> n | None \<Rightarrow> show_nat i))
                     (attrPath ?el @ ''.'' @ bracketed (show_nat i))
                     (if e_type (?xs ! i) = Some ''derivation'' \<or> e_has_drvPath (?xs ! i)
                      then Derivation else ListElement)
                     (if e_type (?xs ! i) = Some ''derivation'' \<or> e_has_drvPath (?xs ! i)
                      then NoneState else Collapsed)
                     (Some i) None None)
                [0..<length ?xs])"
    by (elim conjE)
  then have a: "fst (getChildren (?ev ?xs) 0 (Some ?el) ?st) =
     [FlakeNode ''git'' ''x.[0]'' Derivation NoneState (Some 0) None None,
      FlakeNode ''1'' ''x.[1]'' ListElement Collapsed (Some 1) None None,
      FlakeNode ''vim'' ''x.[2]'' Derivation NoneState (Some 2) None None]"
    by (simp add: p applyFilter_off bracketed_def show_nat.simps upt_rec)
  note ty = list_children_one_batched_query [OF h(1,2) h(3) r, of ?ys]
  from ty have "issued (snd (snd (getChildren (?ev ?ys) 0 (Some ?el) ?st))) =
           issued ?st @ [GetValueType (attrPath ?el), GetListElementsInfo (attrPath ?el)]"
    by (rule conjunct1)
  then have d: "issued (snd (snd (getChildren (?ev ?ys) 0 (Some ?el) ?st))) =
     [GetValueType ''x'', GetListElementsInfo ''x'']"
    by (simp add: p new_Provider_def)
  from ty have "fst (getChildren (?ev ?ys) 0 (Some ?el) ?st) =
           applyFilter ?st
             (map (\<lambda>i. FlakeNode
                     (case e_name (?ys ! i) of
                        Some n \<Rightarrow> n
                      | None \<Rightarrow> (case e_pname (?ys ! i) of Some n \<Rightarrow> n | None \<Rightarrow> show_nat i))
                     (attrPath ?el @ ''.'' @ bracketed (show_nat i))
                     (if e_type (?ys ! i) = Some ''derivation'' \<or> e_has_drvPath (?ys ! i)
                      then Derivation else ListElement)
                     (if e_type (?ys ! i) = Some ''derivation'' \<or> e_has_drvPath (?ys ! i)
                      then NoneState else Collapsed)
                     (Some i) None None)
                [0..<length ?ys])"
    by (elim conjE)
  then have c: "length (fst (getChildren (?ev ?ys) 0 (Some ?el) ?st)) = 500"
    by (simp add: applyFilter_off [OF p(2)])
  from a b c d show ?thesis by (intro conjI)
qed

theorem nonempty_children_cached_witness:
  "fst (getChildren (fixed_evaluator (Success ''set'') (Success False) (Success (Some [''git''])) (Failure [])) 0 (Some (new_FlakeNode ''x'' ''x'' Attrset Collapsed)) (new_Provider ''/w'' [])) = [FlakeNode ''git'' ''x.git'' Attrset Collapsed None None None] \<and>
   issued (snd (snd (getChildren (fixed_evaluator (Success ''set'') (Success False) (Success (Some [''git''])) (Failure [])) 0 (Some (new_FlakeNode ''x'' ''x'' Attrset Collapsed)) (new_Provider ''/w'' [])))) = [GetValueType ''x'', IsDerivation ''x'', GetAttrNames ''x''] \<and>
   fst (getChildren (fixed_evaluator (Failure ''boom'') (Failure []) (Failure []) (Failure [])) 60000 (fst (snd (getChildren (fixed_evaluator (Success ''set'') (Success False) (Success (Some [''git''])) (Failure [])) 0 (Some (new_FlakeNode ''x'' ''x'' Attrset Collapsed)) (new_Provider ''/w'' [])))) (snd (snd (getChildren (fixed_evaluator (Success ''set'') (Success False) (Success (Some [''git''])) (Failure [])) 0 (Some (new_FlakeNode ''x'' ''x'' Attrset Collapsed)) (new_Provider ''/w'' []))))) = [FlakeNode ''git'' ''x.git'' Attrset Collapsed None None None] \<and>
   issued (snd (snd (getChildren (fixed_evaluator (Failure ''boom'') (Failure []) (Failure []) (Failure [])) 60000 (fst (snd (getChildren (fixed_evaluator (Success ''set'') (Success False) (Success (Some [''git''])) (Failure [])) 0 (Some (new_FlakeNode ''x'' ''x'' Attrset Collapsed)) (new_Provider ''/w'' [])))) (snd (snd (getChildren (fixed_evaluator (Success ''set'') (Success False) (Success (Some [''git''])) (Failure [])) 0 (Some (new_FlakeNode ''x'' ''x'' Attrset Collapsed)) (new_Provider ''/w'' []))))))) =
     [GetValueType ''x'', IsDerivation ''x'', GetAttrNames ''x''] \<and>
   getChildren (fixed_evaluator (Success ''set'') (Success False) (Success (Some [])) (Failure [])) 0 (Some (new_FlakeNode ''y'' ''y'' Attrset Collapsed)) (new_Provider ''/w'' []) =
     ([], Some (new_FlakeNode ''y'' ''y'' Attrset Collapsed),
      emitStatus StatusSuccess ''Loaded 0 attributes''
        (run_query (GetAttrNames ''y'') (run_query (IsDerivation ''y'') (run_query (GetValueType ''y'') (new_Provider ''/w'' []))))) \<and>
   prefix [GetValueType ''y'', IsDerivation ''y'', GetAttrNames ''y'', GetValueType ''y'']
     (issued (snd (snd (getChildren (fixed_evaluator (Success ''set'') (Success False) (Success (Some [])) (Failure [])) 5 (Some (new_FlakeNode ''y'' ''y'' Attrset Collapsed))
        (emitStatus StatusSuccess ''Loaded 0 attributes''
          (run_query (GetAttrNames ''y'') (run_query (IsDerivation ''y'') (run_query (GetValueType ''y'') (new_Provider ''/w'' [])))))))))"
proof -
  let ?ev = "(fixed_evaluator (Success ''set'') (Success False) (Success (Some [''git''])) (Failure []))"
  let ?evn = "(fixed_evaluator (Success ''set'') (Success False) (Success (Some [])) (Failure []))"
  let ?boom = "(fixed_evaluator (Failure ''boom'') (Failure []) (Failure []) (Failure []))"
  let ?el = "(new_FlakeNode ''x'' ''x'' Attrset Collapsed)"
  let ?ely = "(new_FlakeNode ''y'' ''y'' Attrset Collapsed)"
  let ?st = "(new_Provider ''/w'' [])"
  let ?cs = "[FlakeNode ''git'' ''x.git'' Attrset Collapsed None None None]"
  let ?st1 = "emitStatus StatusSuccess ''Loaded 1 attributes''
      (run_query (GetAttrNames ''x'') (run_query (IsDerivation ''x'') (run_query (GetValueType ''x'') ?st)))"
  let ?sty = "emitStatus StatusSuccess ''Loaded 0 attributes''
      (run_query (GetAttrNames ''y'') (run_query (IsDerivation ''y'') (run_query (GetValueType ''y'') ?st)))"
  have h: "flakePath ?st \<noteq> []" "getCachedChildren 0 60000 ?el = None"
    and h3: "nodeType ?el \<noteq> Error"
    and h4: "children_query_error ?ev ?st (attrPath ?el) = None"
    and hy: "getCachedChildren 0 60000 ?ely = None"
    by (simp_all add: node_eval provider_eval children_query_error_def)
  have f: "fetchChildren ?ev 0 ?el ?st = (Returned ?cs, ?el, ?st1)"
    by (simp add: fetchChildren_def fetchAttrsetChildren_def Let_def node_eval provider_eval
        show_nat.simps)
  have fy: "fetchChildren ?evn 0 ?ely ?st = (Returned [], ?ely, ?sty)"
    by (simp add: fetchChildren_def fetchAttrsetChildren_def Let_def node_eval provider_eval
        show_nat.simps)
  have ne: "?cs \<noteq> []" by simp
  have t: "(60000::int) - 0 \<le> 60000" by simp
  have t5: "(0::int) \<le> 5" by simp
  note w = nonempty_children_cached [OF h f, of 60000 ?boom, THEN conjunct1, THEN mp, OF conjI [OF ne conjI [OF h3 conjI [OF h4 t]]]]
  note wy = nonempty_children_cached [OF h(1) hy fy, of 5 ?evn, THEN conjunct2, THEN conjunct1, THEN mp, OF conjI [OF refl t5]]
  have off: "applyFilter ?st ?cs = ?cs"
    by (simp add: provider_eval)
  from w have a: "fst (getChildren ?ev 0 (Some ?el) ?st) = applyFilter ?st ?cs"
    by (rule conjunct1)
  from w have d: "getChildren ?boom 60000 (fst (snd (getChildren ?ev 0 (Some ?el) ?st)))
             (snd (snd (getChildren ?ev 0 (Some ?el) ?st))) =
           (applyFilter ?st ?cs, fst (snd (getChildren ?ev 0 (Some ?el) ?st)),
            snd (snd (getChildren ?ev 0 (Some ?el) ?st)))"
    by (elim conjE)
  have i: "issued (snd (snd (getChildren ?ev 0 (Some ?el) ?st))) =
      [GetValueType ''x'', IsDerivation ''x'', GetAttrNames ''x'']"
    using getChildren_fetch_nonempty [OF h f ne h3]
    by (simp add: node_eval provider_eval)
  from wy have gy: "getChildren ?evn 0 (Some ?ely) ?st = ([], Some ?ely, ?sty)"
    by (rule conjunct1)
  from wy have "prefix (issued ?sty @ [GetValueType (attrPath ?ely)])
              (issued (snd (snd (getChildren ?evn 5 (Some ?ely) ?sty))))"
    by (elim conjE)
  moreover have "issued ?sty @ [GetValueType (attrPath ?ely)] =
      [GetValueType ''y'', IsDerivation ''y'', GetAttrNames ''y'', GetValueType ''y'']"
    by (simp add: node_eval provider_eval)
  ultimately have py: "prefix [GetValueType ''y'', IsDerivation ''y'', GetAttrNames ''y'', GetValueType ''y'']
     (issued (snd (snd (getChildren ?evn 5 (Some ?ely) ?sty))))"
    by simp
  from a d i off have abcd: "fst (getChildren ?ev 0 (Some ?el) ?st) = ?cs \<and>
     issued (snd (snd (getChildren ?ev 0 (Some ?el) ?st))) = [GetValueType ''x'', IsDerivation ''x'', GetAttrNames ''x''] \<and>
     fst (getChildren ?boom 60000 (fst (snd (getChildren ?ev 0 (Some ?el) ?st))) (snd (snd (getChildren ?ev 0 (Some ?el) ?st)))) = ?cs \<and>
     issued (snd (snd (getChildren ?boom 60000 (fst (snd (getChildren ?ev 0 (Some ?el) ?st))) (snd (snd (getChildren ?ev 0 (Some ?el) ?st)))))) =
       [GetValueType ''x'', IsDerivation ''x'', GetAttrNames ''x'']"
    by simp
  from abcd gy py show ?thesis by (intro conjI) (elim conjE, assumption)+
qed



section \<open>Superseding a pending query\<close>

lemma map_of_map_set:
  "map_of (map_set k v m) k' = (if k' = k then Some v else map_of m k')"
  by (induction m) auto

lemma set_map_set: "set (map_set k v m) \<subseteq> insert (k, v) (set m)"
  by (induction m) auto

lemma set_map_delete: "set (map_delete k m) \<subseteq> set m"
  by (auto simp: map_delete_def)

lemma timers_registered_iff:
  "timers_registered s =
     (\<forall>tid. pending s tid \<longrightarrow>
        map_of (debounceTimers s) (timer_key (timerLog s ! tid)) = Some tid)"
  by (auto simp: timers_registered_def list_all_iff pending_def)

lemma timers_known_iff:
  "timers_known s =
     ((\<forall>t\<in>set (clearedTimers s). t < length (timerLog s)) \<and>
      (\<forall>t\<in>set (firedTimers s). t < length (timerLog s)) \<and>
      (\<forall>e\<in>set (debounceTimers s). snd e < length (timerLog s)))"
  by (simp add: timers_known_def list_all_iff)

text \<open>Which fields the steps leave alone.\<close>

lemma executeNix_timers [simp]:
  "debounceTimers (executeNix a o' k r s) = debounceTimers s"
  "timerLog (executeNix a o' k r s) = timerLog s"
  "clearedTimers (executeNix a o' k r s) = clearedTimers s"
  "firedTimers (executeNix a o' k r s) = firedTimers s"
  "killed (executeNix a o' k r s) = killed s"
  "requests (executeNix a o' k r s) = requests s"
  by (simp_all add: executeNix_def)

lemma resolve_fields [simp]:
  "debounceTimers (resolve r x s) = debounceTimers s"
  "timerLog (resolve r x s) = timerLog s"
  "clearedTimers (resolve r x s) = clearedTimers s"
  "firedTimers (resolve r x s) = firedTimers s"
  "spawned (resolve r x s) = spawned s"
  "killed (resolve r x s) = killed s"
  "activeProcesses (resolve r x s) = activeProcesses s"
  by (simp_all add: resolve_def split: option.splits)

lemma cancel_fields [simp]:
  "timerLog (cancel k s) = timerLog s"
  "firedTimers (cancel k s) = firedTimers s"
  "spawned (cancel k s) = spawned s"
  "requests (cancel k s) = requests s"
  "nixArgs (cancel k s) = nixArgs s"
  "experimentalFeatures (cancel k s) = experimentalFeatures s"
  by (simp_all add: cancel_def Let_def split: option.splits)

lemma buildBaseArgs_cancel [simp]: "buildBaseArgs (cancel k s) = buildBaseArgs s"
  by (simp add: buildBaseArgs_def)

lemma map_delete_absent: "map_of m k = None \<Longrightarrow> map_delete k m = m"
  by (induction m) (auto simp: map_delete_def split: if_splits)

lemma cancel_debounceTimers:
  "debounceTimers (cancel k s) = map_delete k (debounceTimers s)"
  by (auto simp: cancel_def Let_def map_delete_absent split: option.splits)

lemma cancel_clearedTimers:
  "clearedTimers (cancel k s) =
     clearedTimers s @ (case map_of (debounceTimers s) k of None \<Rightarrow> [] | Some t \<Rightarrow> [t])"
  by (simp add: cancel_def Let_def split: option.splits)

lemma cancel_killed:
  "map_of (activeProcesses s) k = Some p \<Longrightarrow> p \<in> set (killed (cancel k s))"
  by (auto simp: cancel_def Let_def split: option.splits)

lemma cancel_activeProcesses:
  "map_of (activeProcesses s) k = Some p \<Longrightarrow> p \<notin> set (killed s) \<Longrightarrow>
   map_of (activeProcesses (cancel k s)) k = None"
  by (auto simp: cancel_def Let_def map_of_map_delete split: option.splits)

lemma timers_ok_cong:
  assumes "debounceTimers s' = debounceTimers s" "timerLog s' = timerLog s"
    "clearedTimers s' = clearedTimers s" "firedTimers s' = firedTimers s"
  shows "timers_ok s' = timers_ok s"
  using assms by (simp add: timers_ok_def timers_registered_iff timers_known_iff pending_def)

lemma pending_cancel:
  "pending (cancel k s) tid = (pending s tid \<and> map_of (debounceTimers s) k \<noteq> Some tid)"
  by (auto simp: pending_def cancel_clearedTimers split: option.splits)

lemma cancel_ok:
  assumes "timers_ok s"
  shows "timers_ok (cancel k s)"
proof -
  from assms have reg: "\<And>tid. pending s tid \<Longrightarrow>
      map_of (debounceTimers s) (timer_key (timerLog s ! tid)) = Some tid"
    and kn: "\<forall>t\<in>set (clearedTimers s). t < length (timerLog s)"
      "\<forall>t\<in>set (firedTimers s). t < length (timerLog s)"
      "\<forall>e\<in>set (debounceTimers s). snd e < length (timerLog s)"
    by (simp_all add: timers_ok_def timers_registered_iff timers_known_iff)
  have r: "timers_registered (cancel k s)"
    unfolding timers_registered_iff
  proof (intro allI impI)
    fix tid
    assume "pending (cancel k s) tid"
    then have p: "pending s tid" and n: "map_of (debounceTimers s) k \<noteq> Some tid"
      by (simp_all add: pending_cancel)
    from reg [OF p] n have "timer_key (timerLog s ! tid) \<noteq> k" by auto
    with reg [OF p]
    show "map_of (debounceTimers (cancel k s)) (timer_key (timerLog (cancel k s) ! tid)) = Some tid"
      by (simp add: cancel_debounceTimers map_of_map_delete)
  qed
  have "t < length (timerLog s)" if "map_of (debounceTimers s) k = Some t" for t
    using kn(3) map_of_SomeD [OF that] by fastforce
  then have c: "\<forall>t\<in>set (clearedTimers (cancel k s)). t < length (timerLog s)"
    using kn(1) by (auto simp: cancel_clearedTimers split: option.splits)
  have d: "\<forall>e\<in>set (debounceTimers (cancel k s)). snd e < length (timerLog s)"
    using kn(3) set_map_delete [of k "debounceTimers s"] by (auto simp: cancel_debounceTimers)
  from r c d kn(2) show ?thesis
    by (simp add: timers_ok_def timers_known_iff)
qed

lemma cancel_unmaps: "map_of (debounceTimers (cancel k s)) k = None"
  by (simp add: cancel_debounceTimers map_of_map_delete)

lemma set_timer_ok:
  assumes ok: "timers_ok s" and un: "map_of (debounceTimers s) k = None"
    and t: "timer_key t = k"
  shows "timers_ok (s\<lparr>timerLog := timerLog s @ [t],
                      debounceTimers := map_set k (length (timerLog s)) (debounceTimers s)\<rparr>)"
    (is "timers_ok ?s'")
proof -
  from ok have reg: "\<And>tid. pending s tid \<Longrightarrow>
      map_of (debounceTimers s) (timer_key (timerLog s ! tid)) = Some tid"
    and kn: "\<forall>t\<in>set (clearedTimers s). t < length (timerLog s)"
      "\<forall>t\<in>set (firedTimers s). t < length (timerLog s)"
      "\<forall>e\<in>set (debounceTimers s). snd e < length (timerLog s)"
    by (simp_all add: timers_ok_def timers_registered_iff timers_known_iff)
  have r: "timers_registered ?s'"
    unfolding timers_registered_iff
  proof (intro allI impI)
    fix tid
    assume p': "pending ?s' tid"
    show "map_of (debounceTimers ?s') (timer_key (timerLog ?s' ! tid)) = Some tid"
    proof (cases "tid = length (timerLog s)")
      case True
      then show ?thesis using t by (simp add: map_of_map_set)
    next
      case False
      with p' have p: "pending s tid" by (auto simp: pending_def)
      then have lt: "tid < length (timerLog s)" by (simp add: pending_def)
      from reg [OF p] un have "timer_key (timerLog s ! tid) \<noteq> k" by auto
      with reg [OF p] lt show ?thesis by (simp add: map_of_map_set nth_append)
    qed
  qed
  have "\<forall>e\<in>set (map_set k (length (timerLog s)) (debounceTimers s)). snd e < Suc (length (timerLog s))"
    using kn(3) set_map_set [of k "length (timerLog s)" "debounceTimers s"] by fastforce
  with kn(1,2) have "timers_known ?s'"
    by (auto simp: timers_known_iff less_Suc_eq)
  with r show ?thesis by (simp add: timers_ok_def)
qed

lemma run_ok:
  assumes "timers_ok s"
  shows "timers_ok (run a o' key d s)"
proof -
  let ?k = "case key of Some k \<Rightarrow> k | None \<Rightarrow> join_space a"
  let ?s2 = "(cancel ?k s)\<lparr>requests := Suc (requests (cancel ?k s))\<rparr>"
  have ok2: "timers_ok ?s2"
    using cancel_ok [OF assms, of ?k] timers_ok_cong [of ?s2 "cancel ?k s"] by simp
  show ?thesis
  proof (cases d)
    case True
    have un: "map_of (debounceTimers ?s2) ?k = None"
      using cancel_unmaps [of ?k s] by simp
    let ?t = "\<lparr>timer_args = a, timer_key = ?k, timer_request = requests (cancel ?k s),
               timer_options = o'\<rparr>"
    have "timers_ok (?s2\<lparr>timerLog := timerLog ?s2 @ [?t],
             debounceTimers := map_set ?k (length (timerLog ?s2)) (debounceTimers ?s2)\<rparr>)"
      using ok2 un by (rule set_timer_ok) simp
    then show ?thesis using True by (simp add: run_def Let_def)
  next
    case False
    have "timers_ok (executeNix a o' ?k (requests (cancel ?k s)) ?s2) = timers_ok ?s2"
      by (rule timers_ok_cong) simp_all
    with ok2 show ?thesis using False by (simp add: run_def Let_def)
  qed
qed

lemma timer_fires_ok:
  assumes "timers_ok s"
  shows "timers_ok (timer_fires tid s)"
proof (cases "pending s tid")
  case False
  with assms show ?thesis by (simp add: timer_fires_def)
next
  case True
  from assms have reg: "\<And>t. pending s t \<Longrightarrow>
      map_of (debounceTimers s) (timer_key (timerLog s ! t)) = Some t"
    and kn: "\<forall>t\<in>set (clearedTimers s). t < length (timerLog s)"
      "\<forall>t\<in>set (firedTimers s). t < length (timerLog s)"
      "\<forall>e\<in>set (debounceTimers s). snd e < length (timerLog s)"
    by (simp_all add: timers_ok_def timers_registered_iff timers_known_iff)
  let ?k = "timer_key (timerLog s ! tid)"
  let ?s1 = "s\<lparr>firedTimers := firedTimers s @ [tid],
                debounceTimers := map_delete ?k (debounceTimers s)\<rparr>"
  have r: "timers_registered ?s1"
    unfolding timers_registered_iff
  proof (intro allI impI)
    fix t
    assume "pending ?s1 t"
    then have p: "pending s t" and ne: "t \<noteq> tid" by (auto simp: pending_def)
    from reg [OF p] reg [OF True] ne have "timer_key (timerLog s ! t) \<noteq> ?k" by auto
    with reg [OF p] show "map_of (debounceTimers ?s1) (timer_key (timerLog ?s1 ! t)) = Some t"
      by (simp add: map_of_map_delete)
  qed
  from True have "tid < length (timerLog s)" by (simp add: pending_def)
  with kn set_map_delete [of ?k "debounceTimers s"] have "timers_known ?s1"
    by (auto simp: timers_known_iff)
  with r have ok1: "timers_ok ?s1" by (simp add: timers_ok_def)
  have "timers_ok (timer_fires tid s) = timers_ok ?s1"
    using True by (intro timers_ok_cong) (simp_all add: timer_fires_def Let_def)
  with ok1 show ?thesis by simp
qed

lemma proc_steps_ok:
  "timers_ok (proc_closes pid code out err parses s) = timers_ok s"
  "timers_ok (proc_error pid msg s) = timers_ok s"
  "timers_ok (proc_timeout pid s) = timers_ok s"
  by (rule timers_ok_cong;
      simp add: proc_closes_def proc_error_def proc_timeout_def Let_def)+

lemma fold_cancel_ok: "timers_ok s \<Longrightarrow> timers_ok (fold cancel ks s)"
  by (induction ks arbitrary: s) (simp_all add: cancel_ok)

lemma step_ok: "timers_ok s \<Longrightarrow> timers_ok (step e s)"
  by (cases e) (simp_all add: run_ok cancel_ok cancelAll_def fold_cancel_ok timer_fires_ok
      proc_steps_ok)

lemma new_Runner_ok: "timers_ok (new_Runner a f)"
  by (simp add: timers_ok_def timers_registered_def timers_known_def new_Runner_def)

lemma reachable_ok: "timers_ok (fold step evs (new_Runner a f))"
proof -
  have "timers_ok s \<Longrightarrow> timers_ok (fold step evs s)" for s
    by (induction evs arbitrary: s) (simp_all add: step_ok)
  then show ?thesis using new_Runner_ok by blast
qed

lemma run_fields:
  "clearedTimers (run a o' (Some k) d s) = clearedTimers (cancel k s)"
  "killed (run a o' (Some k) d s) = killed (cancel k s)"
  by (simp_all add: run_def Let_def)

lemma run_spawned_now:
  "spawned (run a o' (Some k) False s) =
     spawned s @ [\<lparr>proc_args = buildBaseArgs s @ a, proc_key = k, proc_request = requests s,
                   proc_options = o'\<rparr>]"
  by (simp add: run_def Let_def executeNix_def buildBaseArgs_def)

lemma run_spawned_later:
  "spawned (run a o' (Some k) True s) = spawned s"
  by (simp add: run_def Let_def)

lemma run_sets_timer:
  assumes "timers_ok s"
  shows "pending (run a o' (Some k) True s) (length (timerLog s)) \<and>
         spawned (timer_fires (length (timerLog s)) (run a o' (Some k) True s)) =
           spawned s @ [\<lparr>proc_args = buildBaseArgs s @ a, proc_key = k,
                         proc_request = requests s, proc_options = o'\<rparr>]"
proof -
  from cancel_ok [OF assms, of k] have
    kn: "\<forall>t\<in>set (clearedTimers (cancel k s)). t < length (timerLog s)"
      "\<forall>t\<in>set (firedTimers s). t < length (timerLog s)"
    by (simp_all add: timers_ok_def timers_known_iff)
  then have p: "pending (run a o' (Some k) True s) (length (timerLog s))"
    by (auto simp: pending_def run_def Let_def)
  then show ?thesis
    by (simp add: timer_fires_def Let_def)
       (simp add: run_def Let_def executeNix_def buildBaseArgs_def)
qed

lemma cleared_cancel: "t \<in> set (clearedTimers s) \<Longrightarrow> t \<in> set (clearedTimers (cancel k s))"
  by (simp add: cancel_clearedTimers)

lemma cleared_fold_cancel:
  "t \<in> set (clearedTimers s) \<Longrightarrow> t \<in> set (clearedTimers (fold cancel ks s))"
  by (induction ks arbitrary: s) (simp_all add: cleared_cancel)

lemma cleared_step: "t \<in> set (clearedTimers s) \<Longrightarrow> t \<in> set (clearedTimers (step e s))"
proof (cases e)
  case (Run a o' key d)
  assume "t \<in> set (clearedTimers s)"
  then show ?thesis using Run
    by (simp add: run_def Let_def cleared_cancel)
next
  case (TimerFires tid)
  assume "t \<in> set (clearedTimers s)"
  then show ?thesis using TimerFires by (simp add: timer_fires_def Let_def)
next
  case (Cancel k)
  assume "t \<in> set (clearedTimers s)"
  then show ?thesis using Cancel by (simp add: cleared_cancel)
next
  case CancelAll
  assume "t \<in> set (clearedTimers s)"
  then show ?thesis using CancelAll by (simp add: cancelAll_def cleared_fold_cancel)
next
  case (ProcCloses pid code out err parses)
  assume "t \<in> set (clearedTimers s)"
  then show ?thesis using ProcCloses by (simp add: proc_closes_def Let_def)
next
  case (ProcError pid msg)
  assume "t \<in> set (clearedTimers s)"
  then show ?thesis using ProcError by (simp add: proc_error_def Let_def)
next
  case (ProcTimeout pid)
  assume "t \<in> set (clearedTimers s)"
  then show ?thesis using ProcTimeout by (simp add: proc_timeout_def Let_def)
qed

lemma cleared_steps:
  "t \<in> set (clearedTimers s) \<Longrightarrow> t \<in> set (clearedTimers (fold step evs s))"
  by (induction evs arbitrary: s) (simp_all add: cleared_step)

lemma cleared_never_fires: "t \<in> set (clearedTimers s) \<Longrightarrow> timer_fires t s = s"
  by (simp add: timer_fires_def pending_def)

lemma run_clears_timer:
  "map_of (debounceTimers s) k = Some t \<Longrightarrow> t \<in> set (clearedTimers (run a o' (Some k) d s))"
  by (simp add: run_fields cancel_clearedTimers)

lemma procs_known_iff:
  "procs_known s =
     ((\<forall>p\<in>set (killed s). p < length (spawned s)) \<and>
      (\<forall>e\<in>set (activeProcesses s). snd e < length (spawned s)))"
  by (simp add: procs_known_def list_all_iff)

lemma procs_known_cong:
  "killed s' = killed s \<Longrightarrow> activeProcesses s' = activeProcesses s \<Longrightarrow> spawned s' = spawned s \<Longrightarrow>
   procs_known s' = procs_known s"
  by (simp add: procs_known_def)

lemma cancel_procs_known:
  assumes "procs_known s"
  shows "procs_known (cancel k s)"
proof -
  from assms have kn: "\<forall>p\<in>set (killed s). p < length (spawned s)"
    "\<forall>e\<in>set (activeProcesses s). snd e < length (spawned s)"
    by (simp_all add: procs_known_iff)
  have v: "p < length (spawned s)" if "map_of (activeProcesses s) k = Some p" for p
    using kn(2) map_of_SomeD [OF that] by fastforce
  have a: "\<forall>p\<in>set (killed (cancel k s)). p < length (spawned s)"
    using kn(1) v by (auto simp: cancel_def Let_def split: option.splits if_splits)
  have b: "\<forall>e\<in>set (activeProcesses (cancel k s)). snd e < length (spawned s)"
    using kn(2) set_map_delete [of k "activeProcesses s"]
    by (auto simp: cancel_def Let_def split: option.splits if_splits)
  from a b show ?thesis by (simp add: procs_known_iff)
qed

lemma executeNix_procs_known:
  assumes "procs_known s"
  shows "procs_known (executeNix a o' k r s)"
proof -
  from assms have kn: "\<forall>p\<in>set (killed s). p < length (spawned s)"
    "\<forall>e\<in>set (activeProcesses s). snd e < length (spawned s)"
    by (simp_all add: procs_known_iff)
  have "\<forall>e\<in>set (map_set k (length (spawned s)) (activeProcesses s)). snd e < Suc (length (spawned s))"
    using kn(2) set_map_set [of k "length (spawned s)" "activeProcesses s"] by fastforce
  with kn(1) show ?thesis
    by (auto simp: procs_known_iff executeNix_def less_Suc_eq)
qed

lemma run_procs_known:
  assumes "procs_known s"
  shows "procs_known (run a o' key d s)"
proof -
  let ?k = "case key of Some k \<Rightarrow> k | None \<Rightarrow> join_space a"
  let ?s2 = "(cancel ?k s)\<lparr>requests := Suc (requests (cancel ?k s))\<rparr>"
  have ok2: "procs_known ?s2"
    using cancel_procs_known [OF assms, of ?k] procs_known_cong [of ?s2 "cancel ?k s"] by simp
  show ?thesis
  proof (cases d)
    case True
    have "procs_known (run a o' key d s) = procs_known ?s2"
      using True by (intro procs_known_cong) (simp_all add: run_def Let_def)
    with ok2 show ?thesis by simp
  next
    case False
    from executeNix_procs_known [OF ok2] show ?thesis using False by (simp add: run_def Let_def)
  qed
qed

lemma timer_fires_procs_known:
  assumes "procs_known s"
  shows "procs_known (timer_fires tid s)"
proof (cases "pending s tid")
  case False
  with assms show ?thesis by (simp add: timer_fires_def)
next
  case True
  let ?k = "timer_key (timerLog s ! tid)"
  let ?s1 = "s\<lparr>firedTimers := firedTimers s @ [tid],
                debounceTimers := map_delete ?k (debounceTimers s)\<rparr>"
  have "procs_known ?s1 = procs_known s"
    by (rule procs_known_cong) simp_all
  with assms have "procs_known ?s1" by simp
  from executeNix_procs_known [OF this] show ?thesis
    using True by (simp add: timer_fires_def Let_def)
qed

lemma proc_steps_procs_known:
  assumes "procs_known s"
  shows "procs_known (proc_closes pid code out err parses s)"
    and "procs_known (proc_error pid msg s)"
    and "procs_known (proc_timeout pid s)"
proof -
  from assms have kn: "\<forall>p\<in>set (killed s). p < length (spawned s)"
    "\<forall>e\<in>set (activeProcesses s). snd e < length (spawned s)"
    by (simp_all add: procs_known_iff)
  have d: "\<forall>e\<in>set (map_delete k (activeProcesses s)). snd e < length (spawned s)" for k
    using kn(2) set_map_delete [of k "activeProcesses s"] by auto
  show "procs_known (proc_closes pid code out err parses s)"
    using kn d by (simp add: procs_known_iff proc_closes_def Let_def)
  show "procs_known (proc_error pid msg s)"
    using kn d by (simp add: procs_known_iff proc_error_def Let_def)
  show "procs_known (proc_timeout pid s)"
    using kn by (simp add: procs_known_iff proc_timeout_def Let_def running_def)
qed

lemma fold_cancel_procs_known: "procs_known s \<Longrightarrow> procs_known (fold cancel ks s)"
  by (induction ks arbitrary: s) (simp_all add: cancel_procs_known)

lemma step_procs_known: "procs_known s \<Longrightarrow> procs_known (step e s)"
  by (cases e) (simp_all add: run_procs_known cancel_procs_known cancelAll_def
      fold_cancel_procs_known timer_fires_procs_known proc_steps_procs_known)

lemma reachable_procs_known: "procs_known (fold step evs (new_Runner a f))"
proof -
  have "procs_known s \<Longrightarrow> procs_known (fold step evs s)" for s
    by (induction evs arbitrary: s) (simp_all add: step_procs_known)
  moreover have "procs_known (new_Runner a f)"
    by (simp add: procs_known_def new_Runner_def)
  ultimately show ?thesis by blast
qed

lemma run_registers:
  assumes "procs_known s"
  shows "map_of (activeProcesses (run a o' (Some k) False s)) k = Some (length (spawned s)) \<and>
         length (spawned s) \<notin> set (killed (run a o' (Some k) False s))"
proof -
  from cancel_procs_known [OF assms, of k] have
    "\<forall>p\<in>set (killed (cancel k s)). p < length (spawned s)"
    by (simp add: procs_known_iff)
  then have "length (spawned s) \<notin> set (killed (cancel k s))" by auto
  then show ?thesis
    by (simp add: run_def Let_def executeNix_def map_of_map_set)
qed

lemma run_run_spawned:
  "spawned (run a2 o2 (Some k) False (run a1 o1 (Some k) False s)) =
     spawned s @
       [\<lparr>proc_args = buildBaseArgs s @ a1, proc_key = k, proc_request = requests s,
         proc_options = o1\<rparr>,
        \<lparr>proc_args = buildBaseArgs s @ a2, proc_key = k, proc_request = Suc (requests s),
         proc_options = o2\<rparr>]"
proof -
  have "buildBaseArgs (run a1 o1 (Some k) False s) = buildBaseArgs s"
    and "requests (run a1 o1 (Some k) False s) = Suc (requests s)"
    by (simp_all add: run_def Let_def executeNix_def buildBaseArgs_def)
  then show ?thesis
    by (simp add: run_spawned_now)
qed

text \<open>
  C2, amended.  In every state the runner can reach:
  at most one debounce timer per key is pending;
  if a timer is registered for the key \<open>k\<close> when \<^verbatim>\<open>run\<close> is called with \<open>k\<close>, that
  timer is cleared by the call, and its callback does nothing in any later state, so the
  superseded request never invokes the evaluator;
  if a process that was not yet signalled is registered for \<open>k\<close>, the call sends it
  \<open>SIGTERM\<close> and drops it from the map before going on, and this is the case of the
  process of a call that came directly before: a call without debouncing registers the
  process it spawns under \<open>k\<close>, unsignalled, and the next call with \<open>k\<close> signals it;
  two such calls in a row spawn two processes, the first with the arguments of the first
  call and the second with those of the second;
  without debouncing the call spawns exactly one process, with the base arguments
  followed by the arguments of this call; with debouncing it spawns nothing, sets a timer
  that is pending, and when that timer fires exactly one process is spawned, with the
  arguments of this call.
\<close>

theorem run_supersedes_pending:
  assumes "s = fold step evs (new_Runner args0 features0)"
  shows "(\<forall>t1 t2. pending s t1 \<and> pending s t2 \<and>
            timer_key (timerLog s ! t1) = timer_key (timerLog s ! t2) \<longrightarrow> t1 = t2) \<and>
         (\<forall>t. map_of (debounceTimers s) k = Some t \<longrightarrow>
            t \<in> set (clearedTimers (run a2 o2 (Some k) d2 s)) \<and>
            (\<forall>evs'. timer_fires t (fold step evs' (run a2 o2 (Some k) d2 s)) =
                     fold step evs' (run a2 o2 (Some k) d2 s))) \<and>
         (\<forall>p. map_of (activeProcesses s) k = Some p \<and> p \<notin> set (killed s) \<longrightarrow>
            p \<in> set (killed (run a2 o2 (Some k) d2 s)) \<and>
            map_of (activeProcesses (cancel k s)) k = None) \<and>
         spawned (run a2 o2 (Some k) False s) =
           spawned s @ [\<lparr>proc_args = buildBaseArgs s @ a2, proc_key = k,
                         proc_request = requests s, proc_options = o2\<rparr>] \<and>
         spawned (run a2 o2 (Some k) True s) = spawned s \<and>
         pending (run a2 o2 (Some k) True s) (length (timerLog s)) \<and>
         spawned (timer_fires (length (timerLog s)) (run a2 o2 (Some k) True s)) =
           spawned s @ [\<lparr>proc_args = buildBaseArgs s @ a2, proc_key = k,
                         proc_request = requests s, proc_options = o2\<rparr>] \<and>
         map_of (activeProcesses (run a1 o1 (Some k) False s)) k = Some (length (spawned s)) \<and>
         length (spawned s) \<notin> set (killed (run a1 o1 (Some k) False s)) \<and>
         length (spawned s) \<in> set (killed (run a2 o2 (Some k) d2 (run a1 o1 (Some k) False s))) \<and>
         map_of (activeProcesses (cancel k (run a1 o1 (Some k) False s))) k = None \<and>
         spawned (run a2 o2 (Some k) False (run a1 o1 (Some k) False s)) =
           spawned s @
             [\<lparr>proc_args = buildBaseArgs s @ a1, proc_key = k, proc_request = requests s,
               proc_options = o1\<rparr>,
              \<lparr>proc_args = buildBaseArgs s @ a2, proc_key = k, proc_request = Suc (requests s),
               proc_options = o2\<rparr>]"
proof -
  have ok: "timers_ok s"
    unfolding assms by (rule reachable_ok)
  then have reg: "\<And>tid. pending s tid \<Longrightarrow>
      map_of (debounceTimers s) (timer_key (timerLog s ! tid)) = Some tid"
    by (simp add: timers_ok_def timers_registered_iff)
  have one: "\<forall>t1 t2. pending s t1 \<and> pending s t2 \<and>
            timer_key (timerLog s ! t1) = timer_key (timerLog s ! t2) \<longrightarrow> t1 = t2"
  proof (intro allI impI, elim conjE)
    fix t1 t2
    assume "pending s t1" "pending s t2"
      "timer_key (timerLog s ! t1) = timer_key (timerLog s ! t2)"
    then have p: "pending s t1" "pending s t2"
      and k: "timer_key (timerLog s ! t1) = timer_key (timerLog s ! t2)"
      by simp_all
    have "Some t1 = map_of (debounceTimers s) (timer_key (timerLog s ! t1))"
      by (rule reg [OF p(1), symmetric])
    also have "\<dots> = map_of (debounceTimers s) (timer_key (timerLog s ! t2))"
      by (rule arg_cong [OF k])
    also have "\<dots> = Some t2"
      by (rule reg [OF p(2)])
    finally show "t1 = t2" by (rule option.inject [THEN iffD1])
  qed
  have timer: "\<forall>t. map_of (debounceTimers s) k = Some t \<longrightarrow>
            t \<in> set (clearedTimers (run a2 o2 (Some k) d2 s)) \<and>
            (\<forall>evs'. timer_fires t (fold step evs' (run a2 o2 (Some k) d2 s)) =
                     fold step evs' (run a2 o2 (Some k) d2 s))"
  proof (intro allI impI)
    fix t
    assume "map_of (debounceTimers s) k = Some t"
    then have c: "t \<in> set (clearedTimers (run a2 o2 (Some k) d2 s))"
      by (rule run_clears_timer)
    have "\<forall>evs'. timer_fires t (fold step evs' (run a2 o2 (Some k) d2 s)) =
                     fold step evs' (run a2 o2 (Some k) d2 s)"
    proof
      fix evs'
      show "timer_fires t (fold step evs' (run a2 o2 (Some k) d2 s)) =
                     fold step evs' (run a2 o2 (Some k) d2 s)"
        by (rule cleared_never_fires [OF cleared_steps [OF c]])
    qed
    with c show "t \<in> set (clearedTimers (run a2 o2 (Some k) d2 s)) \<and>
            (\<forall>evs'. timer_fires t (fold step evs' (run a2 o2 (Some k) d2 s)) =
                     fold step evs' (run a2 o2 (Some k) d2 s))" by (rule conjI)
  qed
  have proc: "\<forall>p. map_of (activeProcesses s) k = Some p \<and> p \<notin> set (killed s) \<longrightarrow>
            p \<in> set (killed (run a2 o2 (Some k) d2 s)) \<and>
            map_of (activeProcesses (cancel k s)) k = None"
  proof (intro allI impI, elim conjE)
    fix p
    assume m: "map_of (activeProcesses s) k = Some p" and n: "p \<notin> set (killed s)"
    have "p \<in> set (killed (run a2 o2 (Some k) d2 s))"
      unfolding run_fields using m by (rule cancel_killed)
    moreover have "map_of (activeProcesses (cancel k s)) k = None"
      using m n by (rule cancel_activeProcesses)
    ultimately show "p \<in> set (killed (run a2 o2 (Some k) d2 s)) \<and>
            map_of (activeProcesses (cancel k s)) k = None" by (rule conjI)
  qed
  note now = run_spawned_now [of a2 o2 k s]
  note later = run_spawned_later [of a2 o2 k s]
  note timer_set = run_sets_timer [OF ok, of a2 o2 k]
  have pk: "procs_known s"
    unfolding assms by (rule reachable_procs_known)
  note r = run_registers [OF pk, of a1 o1 k]
  from r have m1: "map_of (activeProcesses (run a1 o1 (Some k) False s)) k = Some (length (spawned s))"
    and n1: "length (spawned s) \<notin> set (killed (run a1 o1 (Some k) False s))"
    by (rule conjunct1, rule conjunct2)
  have c1: "length (spawned s) \<in> set (killed (run a2 o2 (Some k) d2 (run a1 o1 (Some k) False s)))"
    unfolding run_fields [of a2 o2 k d2] using m1 by (rule cancel_killed)
  have d1: "map_of (activeProcesses (cancel k (run a1 o1 (Some k) False s))) k = None"
    using m1 n1 by (rule cancel_activeProcesses)
  note pair = conjI [OF m1 conjI [OF n1 conjI [OF c1 conjI [OF d1 run_run_spawned]]]]
  show ?thesis
    by (rule conjI [OF one conjI [OF timer conjI [OF proc conjI [OF now conjI [OF later
          conjI [OF timer_set [THEN conjunct1] conjI [OF timer_set [THEN conjunct2] pair]]]]]]])
qed

lemmas runner_eval = new_Runner_def run_def cancel_def executeNix_def buildBaseArgs_def
  timer_fires_def pending_def running_def proc_closes_def resolve_def or_default_def trim_def
  map_delete_def Let_def

text \<open>
  C2, as stated, fails.  \<^verbatim>\<open>run\<close> does not debounce unless asked to.  A second call
  with the key of a query whose process is still running ends that process, but the
  process was spawned: the pair results in two invocations, and the close event of the
  first resolves its request, with a failure.
\<close>

theorem two_runs_two_invocations:
  "map_of (activeProcesses
      (run [''eval'', ''a''] \<lparr>cwd = ''/w'', timeout = None\<rparr> (Some ''type:p'') False
         (new_Runner [''--offline''] []))) ''type:p'' = Some 0 \<and>
   running (run [''eval'', ''a''] \<lparr>cwd = ''/w'', timeout = None\<rparr> (Some ''type:p'') False
         (new_Runner [''--offline''] [])) 0 \<and>
   map proc_args (spawned
      (run [''eval'', ''b''] \<lparr>cwd = ''/w'', timeout = None\<rparr> (Some ''type:p'') False
        (run [''eval'', ''a''] \<lparr>cwd = ''/w'', timeout = None\<rparr> (Some ''type:p'') False
           (new_Runner [''--offline''] [])))) =
     [[''--offline'', ''eval'', ''a''], [''--offline'', ''eval'', ''b'']] \<and>
   map_of (resolved
      (proc_closes 0 None [] [] False
        (run [''eval'', ''b''] \<lparr>cwd = ''/w'', timeout = None\<rparr> (Some ''type:p'') False
          (run [''eval'', ''a''] \<lparr>cwd = ''/w'', timeout = None\<rparr> (Some ''type:p'') False
             (new_Runner [''--offline''] []))))) 0 = Some (Failure ''Exit code null'')"
  by (simp add: runner_eval)

theorem run_supersedes_pending_witness:
  "map_of (debounceTimers
      (fold step [Run [''eval'', ''a''] \<lparr>cwd = ''/w'', timeout = None\<rparr> (Some ''type:p'') True]
         (new_Runner [''--offline''] []))) ''type:p'' = Some 0 \<and>
   pending (fold step [Run [''eval'', ''a''] \<lparr>cwd = ''/w'', timeout = None\<rparr> (Some ''type:p'') True]
         (new_Runner [''--offline''] [])) 0 \<and>
   0 \<in> set (clearedTimers
      (run [''eval'', ''b''] \<lparr>cwd = ''/w'', timeout = None\<rparr> (Some ''type:p'') True
        (fold step [Run [''eval'', ''a''] \<lparr>cwd = ''/w'', timeout = None\<rparr> (Some ''type:p'') True]
           (new_Runner [''--offline''] [])))) \<and>
   timer_fires 0
      (run [''eval'', ''b''] \<lparr>cwd = ''/w'', timeout = None\<rparr> (Some ''type:p'') True
        (fold step [Run [''eval'', ''a''] \<lparr>cwd = ''/w'', timeout = None\<rparr> (Some ''type:p'') True]
           (new_Runner [''--offline''] []))) =
      run [''eval'', ''b''] \<lparr>cwd = ''/w'', timeout = None\<rparr> (Some ''type:p'') True
        (fold step [Run [''eval'', ''a''] \<lparr>cwd = ''/w'', timeout = None\<rparr> (Some ''type:p'') True]
           (new_Runner [''--offline''] [])) \<and>
   map proc_args (spawned (timer_fires 1
      (run [''eval'', ''b''] \<lparr>cwd = ''/w'', timeout = None\<rparr> (Some ''type:p'') True
        (fold step [Run [''eval'', ''a''] \<lparr>cwd = ''/w'', timeout = None\<rparr> (Some ''type:p'') True]
           (new_Runner [''--offline''] []))))) = [[''--offline'', ''eval'', ''b'']] \<and>
   map proc_args (spawned
      (run [''eval'', ''b''] \<lparr>cwd = ''/w'', timeout = None\<rparr> (Some ''type:p'') False
        (fold step [Run [''eval'', ''a''] \<lparr>cwd = ''/w'', timeout = None\<rparr> (Some ''type:p'') True]
           (new_Runner [''--offline''] [])))) = [[''--offline'', ''eval'', ''b'']]"
proof -
  let ?o = "\<lparr>cwd = ''/w'', timeout = None\<rparr>"
  let ?s = "fold step [Run [''eval'', ''a''] ?o (Some ''type:p'') True] (new_Runner [''--offline''] [])"
  let ?b = "[''eval'', ''b'']"
  have m: "map_of (debounceTimers ?s) ''type:p'' = Some 0"
    and p: "pending ?s 0"
    and l: "length (timerLog ?s) = 1" "spawned ?s = []" "buildBaseArgs ?s = [''--offline'']"
    by (simp_all add: runner_eval)
  note t = run_supersedes_pending [OF refl, of "[Run [''eval'', ''a''] ?o (Some ''type:p'') True]"
      "[''--offline'']" "[]" "''type:p''" ?b ?o]
  from t [of True ?b ?o] have "\<forall>t. map_of (debounceTimers ?s) ''type:p'' = Some t \<longrightarrow>
            t \<in> set (clearedTimers (run ?b ?o (Some ''type:p'') True ?s)) \<and>
            (\<forall>evs'. timer_fires t (fold step evs' (run ?b ?o (Some ''type:p'') True ?s)) =
                     fold step evs' (run ?b ?o (Some ''type:p'') True ?s))"
    by (elim conjE)
  from this [THEN spec, THEN mp, OF m]
  have c: "0 \<in> set (clearedTimers (run ?b ?o (Some ''type:p'') True ?s))"
    and f: "\<forall>evs'. timer_fires 0 (fold step evs' (run ?b ?o (Some ''type:p'') True ?s)) =
                     fold step evs' (run ?b ?o (Some ''type:p'') True ?s)"
    by (rule conjunct1, rule conjunct2)
  from f [THEN spec, of "[]"] have n: "timer_fires 0 (run ?b ?o (Some ''type:p'') True ?s) =
      run ?b ?o (Some ''type:p'') True ?s"
    by (simp only: fold_simps id_apply)
  from t [of True ?b ?o] have "spawned (timer_fires (length (timerLog ?s)) (run ?b ?o (Some ''type:p'') True ?s)) =
           spawned ?s @ [\<lparr>proc_args = buildBaseArgs ?s @ ?b, proc_key = ''type:p'',
                         proc_request = requests ?s, proc_options = ?o\<rparr>]"
    by (elim conjE)
  then have later: "map proc_args (spawned (timer_fires 1 (run ?b ?o (Some ''type:p'') True ?s))) =
      [[''--offline'', ''eval'', ''b'']]"
    unfolding l by simp
  from t [of True ?b ?o] have "spawned (run ?b ?o (Some ''type:p'') False ?s) =
           spawned ?s @ [\<lparr>proc_args = buildBaseArgs ?s @ ?b, proc_key = ''type:p'',
                         proc_request = requests ?s, proc_options = ?o\<rparr>]"
    by (elim conjE)
  then have now: "map proc_args (spawned (run ?b ?o (Some ''type:p'') False ?s)) =
      [[''--offline'', ''eval'', ''b'']]"
    unfolding l by simp
  show ?thesis
    by (rule conjI [OF m conjI [OF p conjI [OF c conjI [OF n conjI [OF later now]]]]])
qed

section \<open>Further behaviours of the code\<close>

text \<open>
  What the close handler does to a successor.  The first process is ended by the second
  call; when its close event arrives, the handler deletes the entry of the key, which by
  then holds the second process.  A third call finds nothing to end, and the second and
  third process run side by side under one key.
\<close>

lemma close_unregisters_successor:
  "activeProcesses
     (fold step
        [Run [''eval'', ''a''] \<lparr>cwd = ''/w'', timeout = None\<rparr> (Some ''type:p'') False,
         Run [''eval'', ''b''] \<lparr>cwd = ''/w'', timeout = None\<rparr> (Some ''type:p'') False,
         ProcCloses 0 None [] [] False]
        (new_Runner [''--offline''] [])) = [] \<and>
   running
     (fold step
        [Run [''eval'', ''a''] \<lparr>cwd = ''/w'', timeout = None\<rparr> (Some ''type:p'') False,
         Run [''eval'', ''b''] \<lparr>cwd = ''/w'', timeout = None\<rparr> (Some ''type:p'') False,
         ProcCloses 0 None [] [] False]
        (new_Runner [''--offline''] [])) 1 \<and>
   killed
     (fold step
        [Run [''eval'', ''a''] \<lparr>cwd = ''/w'', timeout = None\<rparr> (Some ''type:p'') False,
         Run [''eval'', ''b''] \<lparr>cwd = ''/w'', timeout = None\<rparr> (Some ''type:p'') False,
         ProcCloses 0 None [] [] False,
         Run [''eval'', ''c''] \<lparr>cwd = ''/w'', timeout = None\<rparr> (Some ''type:p'') False]
        (new_Runner [''--offline''] [])) = [0] \<and>
   length (spawned
     (fold step
        [Run [''eval'', ''a''] \<lparr>cwd = ''/w'', timeout = None\<rparr> (Some ''type:p'') False,
         Run [''eval'', ''b''] \<lparr>cwd = ''/w'', timeout = None\<rparr> (Some ''type:p'') False,
         ProcCloses 0 None [] [] False,
         Run [''eval'', ''c''] \<lparr>cwd = ''/w'', timeout = None\<rparr> (Some ''type:p'') False]
        (new_Runner [''--offline''] []))) = 3"
  by (simp add: runner_eval)

text \<open>
  What a failing fetch records when the path has no entry yet.  The error node itself is
  stored as the last known good children of the path and in the node's cache: the guard
  tests the type of the parent, not of the result.
\<close>

lemma failure_recorded_as_last_good:
  "lastGoodChildren
     (snd (snd (getChildren
        (fixed_evaluator (Failure ''boom'') (Failure []) (Failure []) (Failure []))
        0 (Some (new_FlakeNode ''x'' ''x'' Attrset Collapsed)) (new_Provider ''/w'' [])))) ''x'' =
     Some [FlakeNode ''Error'' ''x'' Error NoneState None (Some ''boom'') None] \<and>
   getCachedChildren 1 60000
     (the (fst (snd (getChildren
        (fixed_evaluator (Failure ''boom'') (Failure []) (Failure []) (Failure []))
        0 (Some (new_FlakeNode ''x'' ''x'' Attrset Collapsed)) (new_Provider ''/w'' []))))) =
     Some [FlakeNode ''Error'' ''x'' Error NoneState None (Some ''boom'') None]"
  by (simp add: getChildren_def fetchChildren_def Let_def node_eval provider_eval)

text \<open>
  What the root call records when a root path is configured.  The children of the
  configured root are fetched through \<^verbatim>\<open>fetchChildren\<close> on a fresh node.  On a
  failure \<^verbatim>\<open>fetchChildren\<close> looks up the last known good children of the root path,
  but the branch of \<^verbatim>\<open>getChildren\<close> that records them is not reached by the root
  call: after a successful root call there is no entry for the root path, and a failing
  root call that follows returns an error node.
\<close>

lemma configured_root_not_recorded:
  "map label (fst (getChildren
      (fixed_evaluator (Success ''set'') (Success False) (Success (Some [''git''])) (Failure []))
      0 None (new_Provider ''/w'' ''cfg''))) = [''git''] \<and>
   lastGoodChildren (snd (snd (getChildren
      (fixed_evaluator (Success ''set'') (Success False) (Success (Some [''git''])) (Failure []))
      0 None (new_Provider ''/w'' ''cfg'')))) ''cfg'' = None \<and>
   fst (getChildren (fixed_evaluator (Failure ''boom'') (Failure []) (Failure []) (Failure []))
      1 None
      (snd (snd (getChildren
        (fixed_evaluator (Success ''set'') (Success False) (Success (Some [''git''])) (Failure []))
        0 None (new_Provider ''/w'' ''cfg''))))) =
     [FlakeNode ''Error'' ''cfg'' Error NoneState None (Some ''boom'') None]"
  by (simp add: getChildren_def getRootChildren_def fetchChildren_def fetchAttrsetChildren_def
      Let_def node_eval provider_eval show_nat.simps)

text \<open>
  What \<^verbatim>\<open>parseAttrPath\<close> does with a name that follows an index.  The name joins the
  base path and the indices stay in their order, so \<^verbatim>\<open>a.[0].b.[1]\<close> is evaluated as
  \<^verbatim>\<open>a.b.[0].[1]\<close>; the source notes that this case is not handled.
\<close>

lemma name_after_index_joins_base:
  "parseAttrPath ''a.[0].b.[1]'' = \<lparr>basePath = ''a.b'', listAccesses = [0, 1]\<rparr> \<and>
   buildEvalArgs ''a.[0].b.[1]'' None =
     [''eval'', ''--json'', ''.#a.b'', ''--apply'',
      ''x: (builtins.elemAt (builtins.elemAt x 0) 1)'']"
  by (simp add: buildEvalArgs_def Let_def apply_given_def path_eval show_nat.simps)

end
